(* ===== verification/Prelude.thy ===== *)
theory Prelude
  imports Complex_Main "HOL-Library.Word" "HOL-Library.Multiset"
begin

text \<open>
  Shared vocabulary of the development: the machine types the Go sources use
  (byte slices, 20-byte Ethereum addresses, 32-byte hashes), the reading of a
  Go map whose values are slices (a missing key reads as the nil slice), and
  the lemma collections that the component theories extend and that their
  proofs use through \<open>simp add:\<close>.
\<close>

section \<open>Machine types\<close>

type_synonym byte = "8 word"
type_synonym bytes = "byte list"
type_synonym address = "160 word" \<comment> \<open>\<open>ethcommon.Address\<close>, 20 bytes\<close>
type_synonym hash = "256 word" \<comment> \<open>\<open>ethcommon.Hash\<close>, 32 bytes\<close>

text \<open>\<open>*big.Int\<close> values are unbounded integers.\<close>

type_synonym bigint = int

text \<open>\<open>float64\<close> durations are only passed through, never computed with.\<close>

type_synonym float64 = real

section \<open>Lemma collections\<close>

named_theorems go_map_simps "reading Go maps after an update"
named_theorems step_intros "introduction rules of the step relations"

section \<open>Go maps with slice values\<close>

text \<open>
  In Go, \<open>m[k]\<close> on a \<open>map[K][]V\<close> yields the nil slice when \<open>k\<close> is absent, and
  \<open>append(nil, v)\<close> is \<open>[v]\<close>. A map is modelled as a partial function, and
  this function reads it the way Go does.
\<close>

definition slice_of :: "('k \<rightharpoonup> 'v list) \<Rightarrow> 'k \<Rightarrow> 'v list" where
  "slice_of m k = (case m k of None \<Rightarrow> [] | Some xs \<Rightarrow> xs)"

definition append_at :: "('k \<rightharpoonup> 'v list) \<Rightarrow> 'k \<Rightarrow> 'v \<Rightarrow> ('k \<rightharpoonup> 'v list)" where
  "append_at m k v = m(k \<mapsto> slice_of m k @ [v])"

lemma slice_of_empty [simp, go_map_simps]: "slice_of Map.empty k = []"
  by (simp add: slice_of_def)

lemma slice_of_append_at [simp, go_map_simps]:
  "slice_of (append_at m k v) k' = (if k' = k then slice_of m k @ [v] else slice_of m k')"
  by (simp add: slice_of_def append_at_def)

lemma dom_append_at [simp, go_map_simps]: "dom (append_at m k v) = insert k (dom m)"
  by (simp add: append_at_def)

section \<open>Sums over the slots of a list\<close>

text \<open>
  Per-slot quantities of a list (one slot per goroutine) are summed over the indices;
  updating one slot exchanges one summand.
\<close>

lemma sum_nth_update:
  fixes g :: "nat \<Rightarrow> 'a \<Rightarrow> 'b::comm_monoid_add"
  assumes "i < length xs"
  shows "(\<Sum>j<length xs. g j (xs[i := v] ! j)) + g i (xs ! i) =
         (\<Sum>j<length xs. g j (xs ! j)) + g i v"
proof -
  have i: "i \<in> {..<length xs}" using assms by simp
  have rest: "(\<Sum>j\<in>{..<length xs} - {i}. g j (xs[i := v] ! j)) =
              (\<Sum>j\<in>{..<length xs} - {i}. g j (xs ! j))"
    by (rule sum.cong) auto
  have "(\<Sum>j<length xs. g j (xs[i := v] ! j)) =
        g i v + (\<Sum>j\<in>{..<length xs} - {i}. g j (xs ! j))"
    using sum.remove [OF _ i, of "\<lambda>j. g j (xs[i := v] ! j)"] rest assms by simp
  moreover have "(\<Sum>j<length xs. g j (xs ! j)) =
        g i (xs ! i) + (\<Sum>j\<in>{..<length xs} - {i}. g j (xs ! j))"
    using sum.remove [OF _ i, of "\<lambda>j. g j (xs ! j)"] by simp
  ultimately show ?thesis by (simp add: ac_simps)
qed

lemma sum_nth_update_less:
  fixes g :: "nat \<Rightarrow> 'a \<Rightarrow> nat"
  assumes "i < length xs" and "g i v < g i (xs ! i)"
  shows "(\<Sum>j<length xs. g j (xs[i := v] ! j)) < (\<Sum>j<length xs. g j (xs ! j))"
  using sum_nth_update [OF assms(1), of g v] assms(2) by linarith

lemma sum_nth_update_same:
  fixes g :: "nat \<Rightarrow> 'a \<Rightarrow> 'b::cancel_comm_monoid_add"
  assumes "i < length xs" and "g i v = g i (xs ! i)"
  shows "(\<Sum>j<length xs. g j (xs[i := v] ! j)) = (\<Sum>j<length xs. g j (xs ! j))"
  using sum_nth_update [OF assms(1), of g v] assms(2) by simp

lemma list_all_nthD: "list_all P xs \<Longrightarrow> k < length xs \<Longrightarrow> P (xs ! k)"
  by (simp add: list_all_length)

lemma list_all_update: "list_all P xs \<Longrightarrow> P v \<Longrightarrow> list_all P (xs[k := v])"
  by (auto simp: list_all_iff dest: set_update_subset_insert [THEN subsetD])

lemma sum_nth_append_one:
  fixes g :: "'a \<Rightarrow> 'b::comm_monoid_add"
  shows "(\<Sum>j<length (xs @ [x]). g ((xs @ [x]) ! j)) = (\<Sum>j<length xs. g (xs ! j)) + g x"
proof -
  have "(\<Sum>j<length xs. g ((xs @ [x]) ! j)) = (\<Sum>j<length xs. g (xs ! j))"
    by (rule sum.cong) (simp_all add: nth_append)
  then show ?thesis by (simp add: lessThan_Suc add.commute)
qed

lemma mset_concat_map_upt: "mset (concat (map f [0..<n])) = (\<Sum>j<n. mset (f j))"
  by (induction n) simp_all

lemma length_concat_map_upt: "length (concat (map f [0..<n])) = (\<Sum>j<n. length (f j))"
  by (induction n) simp_all

lemma sum_all_but_one:
  assumes "k < n"
  shows "(\<Sum>j<n. if j = k then 0 else 1 :: nat) = n - 1"
proof -
  have k: "k \<in> {..<n}" using assms by simp
  have "(\<Sum>j<n. if j = k then 0 else 1 :: nat) = (\<Sum>j\<in>{..<n} - {k}. if j = k then 0 else 1)"
    using sum.remove [OF _ k, of "\<lambda>j. if j = k then 0 else 1 :: nat"] by simp
  also have "\<dots> = card ({..<n} - {k})" by simp
  finally show ?thesis using k by simp
qed

section \<open>Maximal runs of a well-founded step relation\<close>

text \<open>
  A step relation that decreases a well-founded order has, from every state satisfying
  an invariant of the steps, a finite run to a state where it is stuck.
\<close>

lemma maximal_run_exists:
  assumes "wf r" and dec: "\<And>x y. R x y \<Longrightarrow> (y, x) \<in> r" and inv: "\<And>x y. R x y \<Longrightarrow> P x \<Longrightarrow> P y"
    and "P x"
  shows "\<exists>y. R\<^sup>*\<^sup>* x y \<and> P y \<and> \<not> (\<exists>z. R y z)"
  using assms(1,4)
proof (induction x rule: wf_induct_rule)
  case (less x)
  show ?case
  proof (cases "\<exists>z. R x z")
    case True
    then obtain z where xz: "R x z" by blast
    from less.IH [OF dec [OF xz] inv [OF xz less.prems]] obtain y where
      "R\<^sup>*\<^sup>* z y" "P y" "\<not> (\<exists>w. R y w)" by blast
    with xz show ?thesis by (blast intro: converse_rtranclp_into_rtranclp)
  qed (use less.prems in blast)
qed

section \<open>Formatting\<close>

text \<open>\<open>fmt.Sprintf("%d", n)\<close> for a non-negative integer: its decimal digits.\<close>

fun show_nat :: "nat \<Rightarrow> string" where
  "show_nat n =
     (if n < 10 then [char_of (48 + n)] else show_nat (n div 10) @ [char_of (48 + n mod 10)])"

declare show_nat.simps [simp del]

end
