(* ===== verification/TicketStore.thy ===== *)
theory TicketStore
  imports Prelude "HOL-Library.Sublist"
begin

text \<open>
  The ticket store of \<open>src/pm/stub.go\<close> (\<open>stubTicketStore\<close>): three Go maps from a
  session identifier to slices (tickets, signatures, recipient randomness), filled by
  \<open>Store\<close> with three \<open>append\<close>s and read by \<open>Load\<close>. The ticket type is a type
  variable: the store never looks inside a ticket. The lemmas show the round trip
  (\<open>Load\<close> after a sequence of \<open>Store\<close>s returns the stored entries of that session in
  call order), and as its consequences that the store only grows.
\<close>

section \<open>State and operations\<close>

record 'tk stubTicketStore =
  tickets :: "string \<rightharpoonup> 'tk list"
  sigs :: "string \<rightharpoonup> bytes list"
  recipientRands :: "string \<rightharpoonup> bigint list"

definition newStubTicketStore :: "'tk stubTicketStore" where
  "newStubTicketStore = \<lparr>tickets = Map.empty, sigs = Map.empty, recipientRands = Map.empty\<rparr>"

text \<open>\<open>Store\<close> always returns the nil error; the model returns the updated store.\<close>

definition Store ::
  "string \<Rightarrow> 'tk \<Rightarrow> bytes \<Rightarrow> bigint \<Rightarrow> 'tk stubTicketStore \<Rightarrow> 'tk stubTicketStore" where
  "Store sessionID ticket sig recipientRand ts =
     ts\<lparr>tickets := append_at (tickets ts) sessionID ticket,
        sigs := append_at (sigs ts) sessionID sig,
        recipientRands := append_at (recipientRands ts) sessionID recipientRand\<rparr>"

text \<open>\<open>Load\<close> reads the three maps; absent sessions read as nil slices; the error is nil.\<close>

definition Load :: "string \<Rightarrow> 'tk stubTicketStore \<Rightarrow> 'tk list \<times> bytes list \<times> bigint list" where
  "Load sessionID ts =
     (slice_of (tickets ts) sessionID, slice_of (sigs ts) sessionID,
      slice_of (recipientRands ts) sessionID)"

section \<open>Runs of the store\<close>

text \<open>A ledger entry is the argument tuple of one \<open>Store\<close> call.\<close>

type_synonym 'tk ledger_entry = "string \<times> 'tk \<times> bytes \<times> bigint"

fun store_all :: "'tk ledger_entry list \<Rightarrow> 'tk stubTicketStore \<Rightarrow> 'tk stubTicketStore" where
  "store_all [] ts = ts"
| "store_all ((sid, t, s, r) # es) ts = store_all es (Store sid t s r ts)"

text \<open>The entries of one session, in call order, as the three aligned slices.\<close>

definition entries_of :: "string \<Rightarrow> 'tk ledger_entry list \<Rightarrow> 'tk list \<times> bytes list \<times> bigint list" where
  "entries_of sid es =
     (let own = filter (\<lambda>(s, _). s = sid) es
      in (map (\<lambda>(_, t, _, _). t) own, map (\<lambda>(_, _, g, _). g) own, map (\<lambda>(_, _, _, r). r) own))"

definition aligned :: "'tk stubTicketStore \<Rightarrow> string \<Rightarrow> bool" where
  "aligned ts sid \<longleftrightarrow>
     length (slice_of (tickets ts) sid) = length (slice_of (sigs ts) sid) \<and>
     length (slice_of (sigs ts) sid) = length (slice_of (recipientRands ts) sid)"

section \<open>Lemmas\<close>

lemma Load_Store [simp]:
  "Load sid (Store sid' t g r ts) =
     (if sid = sid' then
        (let (tks, gs, rs) = Load sid ts in (tks @ [t], gs @ [g], rs @ [r]))
      else Load sid ts)"
  by (simp add: Load_def Store_def)

lemma Load_newStubTicketStore [simp]: "Load sid newStubTicketStore = ([], [], [])"
  by (simp add: Load_def newStubTicketStore_def)

lemma entries_of_Cons [simp]:
  "entries_of sid ((s, t, g, r) # es) =
     (if s = sid then (let (tks, gs, rs) = entries_of sid es in (t # tks, g # gs, r # rs))
      else entries_of sid es)"
  by (simp add: entries_of_def Let_def)

lemma Load_store_all:
  "Load sid (store_all es ts) =
     (let (tks, gs, rs) = Load sid ts; (tks', gs', rs') = entries_of sid es
      in (tks @ tks', gs @ gs', rs @ rs'))"
proof (induction es arbitrary: ts)
  case Nil
  then show ?case by (simp add: entries_of_def Let_def split: prod.splits)
next
  case (Cons e es)
  obtain s t g r where e: "e = (s, t, g, r)" by (cases e) auto
  show ?case
    using Cons.IH [of "Store s t g r ts"] e
    by (auto simp: Let_def split: prod.splits)
qed

lemma aligned_Load:
  "aligned ts sid \<longleftrightarrow>
     (let (tks, gs, rs) = Load sid ts in length tks = length gs \<and> length gs = length rs)"
  by (simp add: aligned_def Load_def)

lemma entries_of_aligned:
  "entries_of sid es = (tks, gs, rs) \<Longrightarrow> length tks = length gs \<and> length gs = length rs"
  by (auto simp: entries_of_def Let_def)

text \<open>
  C22: round trip: after any sequence of \<open>Store\<close> calls on a new store, \<open>Load\<close> of a
  session returns exactly that session's stored tickets, signatures and randomness, in
  call order (empty slices for a session never stored).
\<close>

theorem Load_roundtrip: "Load sid (store_all es newStubTicketStore) = entries_of sid es"
  by (simp add: Load_store_all split: prod.splits)

text \<open>The store is append-only: what \<open>Load\<close> returned before is a prefix of what it returns after.\<close>

lemma store_all_append_only:
  assumes "Load sid ts = (tks, gs, rs)" and "Load sid (store_all es ts) = (tks', gs', rs')"
  shows "prefix tks tks' \<and> prefix gs gs' \<and> prefix rs rs'"
  using assms by (auto simp: Load_store_all split: prod.splits)

lemma store_all_append_only_witness:
  "Load ''s1'' (Store ''s1'' (1::nat) [0] 5 newStubTicketStore) = ([1], [[0]], [5]) \<and>
   Load ''s1'' (store_all [(''s2'', 2, [], 6), (''s1'', 3, [1], 7)]
      (Store ''s1'' (1::nat) [0] 5 newStubTicketStore)) = ([1, 3], [[0], [1]], [5, 7]) \<and>
   prefix [1::nat] [1, 3] \<and> prefix [[0::byte]] [[0], [1]] \<and> prefix [5::bigint] [5, 7]"
proof -
  have h1: "Load ''s1'' (Store ''s1'' (1::nat) [0] 5 newStubTicketStore) = ([1], [[0]], [5])"
    by simp
  have h2: "Load ''s1'' (store_all [(''s2'', 2, [], 6), (''s1'', 3, [1], 7)]
      (Store ''s1'' (1::nat) [0] 5 newStubTicketStore)) = ([1, 3], [[0], [1]], [5, 7])"
    by simp
  show ?thesis using h1 h2 store_all_append_only [OF h1 h2] by simp
qed

end
