(* ===== verification/Broker.thy ===== *)
theory Broker
  imports Prelude
begin

text \<open>
  The broker of \<open>src/pm/stub.go\<close> (\<open>stubBroker\<close>, lines 48--138): deposits and
  penalty escrows per sender address, the registry of redeemed ticket hashes and the
  set of approved signers. Go's \<open>map[K]bool\<close> fields are only ever written with
  \<open>true\<close> and read with the zero-value default, so they are sets here. The ticket
  type is a type variable and \<open>Ticket.Hash()\<close>, which is not part of the sources,
  is a parameter \<open>H\<close> of the operations that use it.
  The lemmas give the functional behaviour of each operation, including the error of
  the getters on absent accounts, the equivalence of the index loop of
  \<open>ApproveSigners\<close> with a set union, the monotonicity of the replay registry over
  any run, and how the stub departs from the broker contract of the spec
  (no replay rejection, no funding, approvals that ignore the sender).
\<close>

section \<open>State, errors and operations\<close>

record stubBroker =
  deposits :: "address \<rightharpoonup> bigint"
  penaltyEscrows :: "address \<rightharpoonup> bigint"
  usedTickets :: "hash set"
  approvedSigners :: "address set"

text \<open>
  The getters' \<open>fmt.Errorf\<close> errors, and \<open>AlreadyRedeemed\<close>, the error the spec's
  broker contract (section 4.3) gives for a replayed ticket.
\<close>

datatype broker_error = NoDeposit address | NoPenaltyEscrow address | AlreadyRedeemed

definition newStubBroker :: stubBroker where
  "newStubBroker =
     \<lparr>deposits = Map.empty, penaltyEscrows = Map.empty, usedTickets = {}, approvedSigners = {}\<rparr>"

text \<open>
  A method with an \<open>error\<close> result returns it beside the new state (\<open>None\<close> is
  nil). The funding and exit operations return nil and change nothing
  (\<open>FundAndApproveSigners\<close>, \<open>FundDeposit\<close>, \<open>FundPenaltyEscrow\<close>,
  \<open>RequestSignersRevocation\<close>, \<open>Unlock\<close>, \<open>CancelUnlock\<close>, \<open>Withdraw\<close>).
\<close>

type_synonym broker_result = "broker_error option \<times> stubBroker"

definition FundAndApproveSigners ::
  "bigint \<Rightarrow> bigint \<Rightarrow> address list \<Rightarrow> stubBroker \<Rightarrow> broker_result" where
  "FundAndApproveSigners depositAmount penaltyEscrowAmount signers b = (None, b)"

definition FundDeposit :: "bigint \<Rightarrow> stubBroker \<Rightarrow> broker_result" where
  "FundDeposit amount b = (None, b)"

definition FundPenaltyEscrow :: "bigint \<Rightarrow> stubBroker \<Rightarrow> broker_result" where
  "FundPenaltyEscrow amount b = (None, b)"

text \<open>
  \<open>ApproveSigners\<close> is the loop \<open>for i := 0; i < len(signers); i++\<close> that sets
  \<open>approvedSigners[signers[i]] = true\<close>; the index only grows, so termination is by
  the measure \<open>len(signers) - i\<close>.
\<close>

function approve_loop :: "address list \<Rightarrow> nat \<Rightarrow> address set \<Rightarrow> address set" where
  "approve_loop signers i approved =
     (if i < length signers then approve_loop signers (Suc i) (insert (signers ! i) approved)
      else approved)"
  by pat_completeness auto
termination
  by (relation "measure (\<lambda>(signers, i, _). length signers - i)") auto

declare approve_loop.simps [simp del]

definition ApproveSigners :: "address list \<Rightarrow> stubBroker \<Rightarrow> broker_result" where
  "ApproveSigners signers b =
     (None, b\<lparr>approvedSigners := approve_loop signers 0 (approvedSigners b)\<rparr>)"

definition RequestSignersRevocation :: "address list \<Rightarrow> stubBroker \<Rightarrow> broker_result" where
  "RequestSignersRevocation signers b = (None, b)"

definition Unlock :: "stubBroker \<Rightarrow> broker_result" where
  "Unlock b = (None, b)"

definition CancelUnlock :: "stubBroker \<Rightarrow> broker_result" where
  "CancelUnlock b = (None, b)"

definition Withdraw :: "stubBroker \<Rightarrow> broker_result" where
  "Withdraw b = (None, b)"

text \<open>\<open>RedeemWinningTicket\<close> marks the ticket's hash as used and returns nil.\<close>

definition RedeemWinningTicket ::
  "('tk \<Rightarrow> hash) \<Rightarrow> 'tk \<Rightarrow> bytes \<Rightarrow> bigint \<Rightarrow> stubBroker \<Rightarrow> broker_result" where
  "RedeemWinningTicket H ticket sig recipientRand b =
     (None, b\<lparr>usedTickets := insert (H ticket) (usedTickets b)\<rparr>)"

definition IsUsedTicket :: "('tk \<Rightarrow> hash) \<Rightarrow> 'tk \<Rightarrow> stubBroker \<Rightarrow> bool" where
  "IsUsedTicket H ticket b \<longleftrightarrow> H ticket \<in> usedTickets b"

text \<open>\<open>IsApprovedSigner\<close> reads \<open>approvedSigners[signer]\<close>; the sender is not used.\<close>

definition IsApprovedSigner :: "address \<Rightarrow> address \<Rightarrow> stubBroker \<Rightarrow> bool" where
  "IsApprovedSigner sender signer b \<longleftrightarrow> signer \<in> approvedSigners b"

definition SetDeposit :: "address \<Rightarrow> bigint \<Rightarrow> stubBroker \<Rightarrow> stubBroker" where
  "SetDeposit addr amount b = b\<lparr>deposits := (deposits b)(addr \<mapsto> amount)\<rparr>"

definition GetDeposit :: "address \<Rightarrow> stubBroker \<Rightarrow> broker_error + bigint" where
  "GetDeposit addr b = (case deposits b addr of None \<Rightarrow> Inl (NoDeposit addr) | Some d \<Rightarrow> Inr d)"

definition SetPenaltyEscrow :: "address \<Rightarrow> bigint \<Rightarrow> stubBroker \<Rightarrow> stubBroker" where
  "SetPenaltyEscrow addr amount b = b\<lparr>penaltyEscrows := (penaltyEscrows b)(addr \<mapsto> amount)\<rparr>"

definition GetPenaltyEscrow :: "address \<Rightarrow> stubBroker \<Rightarrow> broker_error + bigint" where
  "GetPenaltyEscrow addr b =
     (case penaltyEscrows b addr of None \<Rightarrow> Inl (NoPenaltyEscrow addr) | Some e \<Rightarrow> Inr e)"

section \<open>The broker as a machine over its mutating calls\<close>

datatype 'tk broker_op =
    OpFundAndApproveSigners bigint bigint "address list"
  | OpFundDeposit bigint
  | OpFundPenaltyEscrow bigint
  | OpApproveSigners "address list"
  | OpRequestSignersRevocation "address list"
  | OpUnlock
  | OpCancelUnlock
  | OpWithdraw
  | OpRedeemWinningTicket 'tk bytes bigint
  | OpSetDeposit address bigint
  | OpSetPenaltyEscrow address bigint

text \<open>One call on the broker; the error result is not consulted by the next call.\<close>

fun broker_step :: "('tk \<Rightarrow> hash) \<Rightarrow> 'tk broker_op \<Rightarrow> stubBroker \<Rightarrow> stubBroker" where
  "broker_step H (OpFundAndApproveSigners d p ss) b = snd (FundAndApproveSigners d p ss b)"
| "broker_step H (OpFundDeposit a) b = snd (FundDeposit a b)"
| "broker_step H (OpFundPenaltyEscrow a) b = snd (FundPenaltyEscrow a b)"
| "broker_step H (OpApproveSigners ss) b = snd (ApproveSigners ss b)"
| "broker_step H (OpRequestSignersRevocation ss) b = snd (RequestSignersRevocation ss b)"
| "broker_step H OpUnlock b = snd (Unlock b)"
| "broker_step H OpCancelUnlock b = snd (CancelUnlock b)"
| "broker_step H OpWithdraw b = snd (Withdraw b)"
| "broker_step H (OpRedeemWinningTicket t s r) b = snd (RedeemWinningTicket H t s r b)"
| "broker_step H (OpSetDeposit a v) b = SetDeposit a v b"
| "broker_step H (OpSetPenaltyEscrow a v) b = SetPenaltyEscrow a v b"

fun broker_run :: "('tk \<Rightarrow> hash) \<Rightarrow> 'tk broker_op list \<Rightarrow> stubBroker \<Rightarrow> stubBroker" where
  "broker_run H [] b = b"
| "broker_run H (op # ops) b = broker_run H ops (broker_step H op b)"

text \<open>The tickets a run of calls redeems, in call order.\<close>

definition redeemed :: "'tk broker_op list \<Rightarrow> 'tk list" where
  "redeemed ops = concat (map (\<lambda>op. case op of OpRedeemWinningTicket t _ _ \<Rightarrow> [t] | _ \<Rightarrow> []) ops)"

section \<open>The redemption contract of the spec\<close>

text \<open>
  Section 4.3 of the spec: a redemption fails with \<open>AlreadyRedeemed\<close> when the
  ticket's hash is registered, and otherwise registers it. Modelled from the spec; the
  stub is compared with it below.
\<close>

definition redeem_contract ::
  "('tk \<Rightarrow> hash) \<Rightarrow> 'tk \<Rightarrow> stubBroker \<Rightarrow> broker_result" where
  "redeem_contract H ticket b =
     (if H ticket \<in> usedTickets b then (Some AlreadyRedeemed, b)
      else (None, b\<lparr>usedTickets := insert (H ticket) (usedTickets b)\<rparr>))"

section \<open>Lemmas\<close>

lemma approve_loop_eq: "approve_loop signers i approved = approved \<union> set (drop i signers)"
proof (induction signers i approved rule: approve_loop.induct)
  case (1 signers i approved)
  show ?case
  proof (cases "i < length signers")
    case True
    then have "set (drop i signers) = insert (signers ! i) (set (drop (Suc i) signers))"
      by (simp add: Cons_nth_drop_Suc [symmetric])
    with True "1.IH" show ?thesis
      by (simp add: approve_loop.simps [of signers i approved])
  next
    case False
    then show ?thesis by (simp add: approve_loop.simps [of signers i approved])
  qed
qed

lemma approvedSigners_ApproveSigners [simp]:
  "approvedSigners (snd (ApproveSigners signers b)) = approvedSigners b \<union> set signers"
  by (simp add: ApproveSigners_def approve_loop_eq)

lemma usedTickets_broker_step:
  "usedTickets (broker_step H op b) = usedTickets b \<union> H ` set (redeemed [op])"
  by (cases op)
     (simp_all add: FundAndApproveSigners_def FundDeposit_def FundPenaltyEscrow_def
       ApproveSigners_def RequestSignersRevocation_def Unlock_def CancelUnlock_def
       Withdraw_def RedeemWinningTicket_def SetDeposit_def SetPenaltyEscrow_def redeemed_def)

lemma approvedSigners_broker_step:
  "approvedSigners b \<subseteq> approvedSigners (broker_step H op b)"
  by (cases op)
     (auto simp: FundAndApproveSigners_def FundDeposit_def FundPenaltyEscrow_def
       RequestSignersRevocation_def Unlock_def CancelUnlock_def
       Withdraw_def RedeemWinningTicket_def SetDeposit_def SetPenaltyEscrow_def)

lemma deposits_broker_step:
  "deposits (broker_step H op b) =
     (case op of OpSetDeposit a v \<Rightarrow> (deposits b)(a \<mapsto> v) | _ \<Rightarrow> deposits b)"
  by (cases op)
     (simp_all add: FundAndApproveSigners_def FundDeposit_def FundPenaltyEscrow_def
       ApproveSigners_def RequestSignersRevocation_def Unlock_def CancelUnlock_def
       Withdraw_def RedeemWinningTicket_def SetDeposit_def SetPenaltyEscrow_def)

lemma redeemed_Cons: "redeemed (op # ops) = redeemed [op] @ redeemed ops"
  by (simp add: redeemed_def)

lemma usedTickets_broker_run_mono: "usedTickets b \<subseteq> usedTickets (broker_run H ops b)"
proof (induction ops arbitrary: b)
  case Nil
  then show ?case by simp
next
  case (Cons op ops)
  have "usedTickets b \<subseteq> usedTickets (broker_step H op b)" by (simp add: usedTickets_broker_step)
  with Cons.IH [of "broker_step H op b"] show ?case by simp
qed

lemma redeemed_used:
  "t \<in> set (redeemed ops) \<Longrightarrow> H t \<in> usedTickets (broker_run H ops b)"
proof (induction ops arbitrary: b)
  case Nil
  then show ?case by (simp add: redeemed_def)
next
  case (Cons op ops)
  show ?case
  proof (cases "t \<in> set (redeemed ops)")
    case True
    then show ?thesis using Cons.IH by simp
  next
    case False
    with Cons.prems have "t \<in> set (redeemed [op])" by (simp add: redeemed_Cons [of op ops])
    then have "H t \<in> usedTickets (broker_step H op b)" by (simp add: usedTickets_broker_step)
    with usedTickets_broker_run_mono show ?thesis by auto
  qed
qed

text \<open>
  C7: the replay registry after any sequence of broker calls is the registry before it
  together with the hashes of exactly the tickets redeemed in the sequence: no call
  removes a hash, and every redeemed ticket is afterwards reported used.
\<close>

theorem broker_run_usedTickets:
  "usedTickets (broker_run H ops b) = usedTickets b \<union> H ` set (redeemed ops)"
proof (induction ops arbitrary: b)
  case Nil
  then show ?case by (simp add: redeemed_def)
next
  case (Cons op ops)
  then show ?case
    by (simp add: usedTickets_broker_step redeemed_Cons [of op ops] Un_assoc image_Un)
qed

text \<open>
  C19: a sender's deposit that no call sets stays absent, and reading it is the
  distinguished \<open>NoDeposit\<close> error, not zero: in particular the funding calls of the
  stub never create or change a deposit.
\<close>

theorem GetDeposit_never_set:
  assumes "\<forall>v. OpSetDeposit addr v \<notin> set ops"
  shows "GetDeposit addr (broker_run H ops newStubBroker) = Inl (NoDeposit addr)"
proof -
  have "deposits (broker_run H ops b) addr = deposits b addr" for b :: stubBroker
    using assms
  proof (induction ops arbitrary: b)
    case Nil
    then show ?case by simp
  next
    case (Cons op ops)
    then show ?case by (auto simp: deposits_broker_step split: broker_op.splits)
  qed
  then show ?thesis by (simp add: GetDeposit_def newStubBroker_def)
qed

theorem GetDeposit_never_set_witness:
  "(\<forall>v. OpSetDeposit 1 v \<notin> set [OpFundDeposit 10, OpSetDeposit 2 5, OpFundAndApproveSigners 3 4 [1]]) \<and>
   GetDeposit 1 (broker_run id [OpFundDeposit 10, OpSetDeposit 2 5, OpFundAndApproveSigners 3 4 [1]]
     newStubBroker) = Inl (NoDeposit 1)"
proof -
  have h: "\<forall>v. OpSetDeposit (1::address) v \<notin>
             set [OpFundDeposit 10, OpSetDeposit 2 5, OpFundAndApproveSigners 3 4 [1 :: address]]"
    by simp
  show ?thesis using h GetDeposit_never_set [OF h, of "id :: hash \<Rightarrow> hash"] by simp
qed

text \<open>
  C17: on a ticket not yet redeemed the stub's \<open>RedeemWinningTicket\<close> is the spec's
  redemption contract (same error, same registry): a functional refinement.
\<close>

theorem RedeemWinningTicket_refines_contract:
  assumes "\<not> IsUsedTicket H ticket b"
  shows "RedeemWinningTicket H ticket sig recipientRand b = redeem_contract H ticket b"
  using assms by (simp add: RedeemWinningTicket_def redeem_contract_def IsUsedTicket_def)

theorem RedeemWinningTicket_refines_contract_witness:
  "\<not> IsUsedTicket id (5::hash) newStubBroker \<and>
   RedeemWinningTicket id (5::hash) [] 0 newStubBroker = redeem_contract id 5 newStubBroker"
proof -
  have h: "\<not> IsUsedTicket id (5::hash) newStubBroker"
    by (simp add: IsUsedTicket_def newStubBroker_def)
  show ?thesis using h RedeemWinningTicket_refines_contract [OF h, of "[]" 0] by simp
qed

text \<open>
  C18: on a replay the contract rejects with \<open>AlreadyRedeemed\<close>, while the stub returns
  nil: the stub gives no replay protection of its own.
\<close>

theorem RedeemWinningTicket_accepts_replay:
  assumes "IsUsedTicket H ticket b"
  shows "fst (RedeemWinningTicket H ticket sig recipientRand b) = None \<and>
         fst (redeem_contract H ticket b) = Some AlreadyRedeemed"
  using assms by (simp add: RedeemWinningTicket_def redeem_contract_def IsUsedTicket_def)

theorem RedeemWinningTicket_accepts_replay_witness:
  "IsUsedTicket id (5::hash) (snd (RedeemWinningTicket id 5 [] 0 newStubBroker)) \<and>
   fst (RedeemWinningTicket id (5::hash) [] 0 (snd (RedeemWinningTicket id 5 [] 0 newStubBroker))) = None \<and>
   fst (redeem_contract id (5::hash) (snd (RedeemWinningTicket id 5 [] 0 newStubBroker))) =
     Some AlreadyRedeemed"
proof -
  have h: "IsUsedTicket id (5::hash) (snd (RedeemWinningTicket id 5 [] 0 newStubBroker))"
    by (simp add: IsUsedTicket_def RedeemWinningTicket_def)
  show ?thesis using h RedeemWinningTicket_accepts_replay [OF h, of "[]" 0] by simp
qed

text \<open>
  C25: \<open>ApproveSigners\<close>, an index loop over the slice, is the set union of the
  approved signers with the listed ones, returns nil and touches no other field.
\<close>

theorem ApproveSigners_union:
  "ApproveSigners signers b = (None, b\<lparr>approvedSigners := approvedSigners b \<union> set signers\<rparr>)"
  by (simp add: ApproveSigners_def approve_loop_eq)

text \<open>
  C26: approvals are global in the stub: once \<open>ApproveSigners\<close> has listed a signer,
  \<open>IsApprovedSigner\<close> accepts it for every sender, not only for the sender that
  approved it.
\<close>

theorem IsApprovedSigner_any_sender:
  assumes "signer \<in> set signers"
  shows "IsApprovedSigner sender signer (snd (ApproveSigners signers b))"
  using assms by (simp add: IsApprovedSigner_def)

theorem IsApprovedSigner_any_sender_witness:
  "(7::address) \<in> set [7] \<and> IsApprovedSigner 99 7 (snd (ApproveSigners [7] newStubBroker))"
proof -
  have h: "(7::address) \<in> set [7]" by simp
  show ?thesis using h IsApprovedSigner_any_sender [OF h, of 99 newStubBroker] by simp
qed

end
