(* ===== verification/Validator.thy ===== *)
theory Validator
  imports Broker
begin

text \<open>
  The signature verifier and the validator of \<open>src/pm/stub.go\<close>
  (\<open>stubSigVerifier\<close>, lines 36--46; \<open>stubValidator\<close>, lines 140--163), which answer
  with configured flags, and the validation the spec asks of a real validator
  (section 4.4), composed from the stub verifier and the stub broker through their
  methods: the five checks in the spec's order, and the win test on a 256-bit digest.
  The \<open>Ticket\<close> type is not part of the sources; its fields follow the spec.
  The stub's \<open>ValidateTicket\<close> only returns its flag; the spec's validation is kept
  for reference. The lemma shows that exactly \<open>winProb\<close> of the \<open>2^256\<close>
  digests win.
\<close>

section \<open>Tickets\<close>

record Ticket =
  Recipient :: address
  Sender :: address
  FaceValue :: bigint
  WinProb :: bigint
  SenderNonce :: nat
  RecipientRandHash :: hash

section \<open>The stubs\<close>

record stubSigVerifier =
  verifyResult :: bool

definition SetVerifyResult :: "bool \<Rightarrow> stubSigVerifier \<Rightarrow> stubSigVerifier" where
  "SetVerifyResult r sv = sv\<lparr>verifyResult := r\<rparr>"

definition Verify :: "stubSigVerifier \<Rightarrow> address \<Rightarrow> bytes \<Rightarrow> bytes \<Rightarrow> bool" where
  "Verify sv addr msg sig = verifyResult sv"

record stubValidator =
  isValidTicket :: bool
  isWinningTicket :: bool

definition SetIsValidTicket :: "bool \<Rightarrow> stubValidator \<Rightarrow> stubValidator" where
  "SetIsValidTicket r v = v\<lparr>isValidTicket := r\<rparr>"

definition SetIsWinningTicket :: "bool \<Rightarrow> stubValidator \<Rightarrow> stubValidator" where
  "SetIsWinningTicket r v = v\<lparr>isWinningTicket := r\<rparr>"

text \<open>
  \<open>ErrInvalidTicket\<close> is the stub's \<open>fmt.Errorf("invalid ticket")\<close>; the others are
  the distinguishing reasons the spec asks for (section 4.4).
\<close>

datatype validation_error =
    ErrInvalidTicket
  | ErrInvalidSignature
  | ErrUnapprovedSigner
  | ErrTicketUsed
  | ErrInsufficientDeposit
  | ErrRecipientRandMismatch

definition ValidateTicket :: "stubValidator \<Rightarrow> 'tk \<Rightarrow> bytes \<Rightarrow> bigint \<Rightarrow> validation_error option" where
  "ValidateTicket v ticket sig recipientRand =
     (if \<not> isValidTicket v then Some ErrInvalidTicket else None)"

definition IsWinningTicket :: "stubValidator \<Rightarrow> 'tk \<Rightarrow> bytes \<Rightarrow> bigint \<Rightarrow> bool" where
  "IsWinningTicket v ticket sig recipientRand = isWinningTicket v"

section \<open>The validation contract of the spec\<close>

text \<open>
  The checks of section 4.4 in order, each short-circuiting with its own reason:
  (a) the signature verifies for the signer over the ticket's canonical encoding
  \<open>enc\<close>; (b) the signer is approved for the ticket's sender; (c) the ticket is not
  redeemed; (d) the sender's deposit covers the face value (an absent deposit does
  not); (e) the revealed randomness hashes (\<open>rhash\<close>) to the ticket's commitment.
\<close>

definition validate_contract ::
  "stubSigVerifier \<Rightarrow> stubBroker \<Rightarrow> (Ticket \<Rightarrow> hash) \<Rightarrow> (Ticket \<Rightarrow> bytes) \<Rightarrow>
   (bigint \<Rightarrow> hash) \<Rightarrow> address \<Rightarrow> Ticket \<Rightarrow> bytes \<Rightarrow> bigint \<Rightarrow> validation_error option" where
  "validate_contract sv b H enc rhash signer ticket sig recipientRand =
     (if \<not> Verify sv signer (enc ticket) sig then Some ErrInvalidSignature
      else if \<not> IsApprovedSigner (Sender ticket) signer b then Some ErrUnapprovedSigner
      else if IsUsedTicket H ticket b then Some ErrTicketUsed
      else (case GetDeposit (Sender ticket) b of
              Inl _ \<Rightarrow> Some ErrInsufficientDeposit
            | Inr d \<Rightarrow>
                if d < FaceValue ticket then Some ErrInsufficientDeposit
                else if rhash recipientRand \<noteq> RecipientRandHash ticket then Some ErrRecipientRandMismatch
                else None))"

text \<open>
  The win test of section 4.4: the digest of the ticket and the recipient's randomness,
  read as an unsigned 256-bit integer, is below the ticket's win probability.
\<close>

definition wins_digest :: "bigint \<Rightarrow> 256 word \<Rightarrow> bool" where
  "wins_digest winProb d \<longleftrightarrow> uint d < winProb"

definition winning_contract :: "(Ticket \<Rightarrow> bigint \<Rightarrow> 256 word) \<Rightarrow> Ticket \<Rightarrow> bigint \<Rightarrow> bool" where
  "winning_contract digest ticket recipientRand = wins_digest (WinProb ticket) (digest ticket recipientRand)"

section \<open>Lemmas\<close>

lemma uint_image_below:
  "uint ` {d :: 'a::len word. uint d < p} = {0..<min p (2 ^ LENGTH('a))}"
proof -
  have "uint ` {d :: 'a word. uint d < p} = range (uint :: 'a word \<Rightarrow> int) \<inter> {..<p}"
    by auto
  then show ?thesis by (auto simp: range_uint)
qed

text \<open>
  The win test is a fair lottery over the digest: for a win probability \<open>p\<close>,
  exactly \<open>p\<close> of the \<open>2^256\<close> possible digests win (none for \<open>p \<le> 0\<close>, all
  from \<open>p = 2^256\<close> on).
\<close>

lemma wins_digest_count: "card {d :: 256 word. wins_digest p d} = nat (min p (2 ^ 256))"
proof -
  have inj: "inj_on (uint :: 256 word \<Rightarrow> int) {d. uint d < p}"
    by (auto intro: inj_onI simp: word_uint_eq_iff)
  have "card {d :: 256 word. uint d < p} = card (uint ` {d :: 256 word. uint d < p})"
    by (rule card_image [OF inj, symmetric])
  also have "\<dots> = card {0..<min p (2 ^ 256)}"
    by (simp add: uint_image_below)
  finally show ?thesis by (simp add: wins_digest_def)
qed

end
