(* ===== verification/Orchestrator.thy ===== *)
theory Orchestrator
  imports Prelude
begin

text \<open>
  The values the broadcaster's segment pipeline works on, and orchestrator selection
  (\<open>selectOrchestrator\<close>, \<open>src/server/broadcast.go\<close> lines 19--51). External
  collaborators (object-storage sessions, the discovery pool, \<open>drivers.NewSession\<close>)
  are values of function type: a storage session is its \<open>IsExternal\<close> flag and the
  result its \<open>SaveData\<close> gives for each name and payload (an error message or a URI).
  The lemmas give the result of \<open>selectOrchestrator\<close> on each branch, the error
  masking when the pool returns no candidates together with an error, and that a
  session binds the first candidate and its first storage endpoint.
\<close>

section \<open>Collaborator values\<close>

record os_session =
  os_external :: bool
  os_save :: "string \<Rightarrow> bytes \<Rightarrow> string + string" \<comment> \<open>\<open>SaveData\<close>: error or URI\<close>

record VideoProfile =
  profile_name :: string

record OSInfo =
  storage_url :: string

record OrchestratorInfo =
  transcoder :: string
  storage :: "OSInfo list"

text \<open>\<open>GetOrchestrators(count)\<close> of the discovery pool: candidates and an optional error.\<close>

type_synonym orchestrator_pool = "nat \<Rightarrow> OrchestratorInfo list \<times> string option"

record LivepeerNode =
  node_id :: string
  OrchestratorPool :: "orchestrator_pool option"

record PlaylistManager =
  pl_manifest :: string \<comment> \<open>\<open>ManifestID()\<close>\<close>
  pl_os :: os_session \<comment> \<open>\<open>GetOSSession()\<close>\<close>

record BroadcastSession =
  Broadcaster :: LivepeerNode \<comment> \<open>\<open>core.NewBroadcaster(n)\<close> wraps the node\<close>
  ManifestID :: string
  Profiles :: "VideoProfile list"
  OrchestratorInfo :: OrchestratorInfo
  OrchestratorOS :: "os_session option"
  BroadcasterOS :: "os_session option"

datatype select_error = ErrDiscovery | ErrNoOrchs | PoolError string

section \<open>selectOrchestrator\<close>

text \<open>
  \<open>BroadcastJobVideoProfiles\<close> (a package variable) and \<open>drivers.NewSession\<close> are
  parameters. The length test comes before the error test, as in the source.
\<close>

definition selectOrchestrator ::
  "VideoProfile list \<Rightarrow> (OSInfo \<Rightarrow> os_session) \<Rightarrow> LivepeerNode \<Rightarrow> PlaylistManager \<Rightarrow>
   select_error + BroadcastSession" where
  "selectOrchestrator BroadcastJobVideoProfiles NewSession n cpl =
     (case OrchestratorPool n of
        None \<Rightarrow> Inl ErrDiscovery
      | Some pool \<Rightarrow>
          (let (tinfos, err) = pool 1 in
           if length tinfos \<le> 0 then Inl ErrNoOrchs
           else case err of
             Some e \<Rightarrow> Inl (PoolError e)
           | None \<Rightarrow>
               (let tinfo = tinfos ! 0;
                    orchOS = (if 0 < length (storage tinfo) then Some (NewSession (storage tinfo ! 0))
                              else None)
                in Inr \<lparr>Broadcaster = n, ManifestID = pl_manifest cpl,
                        Profiles = BroadcastJobVideoProfiles, OrchestratorInfo = tinfo,
                        OrchestratorOS = orchOS, BroadcasterOS = Some (pl_os cpl)\<rparr>)))"

section \<open>Lemmas\<close>

text \<open>Without a discovery pool, selection fails with \<open>ErrDiscovery\<close>.\<close>

lemma selectOrchestrator_no_pool:
  assumes "OrchestratorPool n = None"
  shows "selectOrchestrator profiles NewSession n cpl = Inl ErrDiscovery"
  using assms by (simp add: selectOrchestrator_def)

lemma selectOrchestrator_no_pool_witness:
  "OrchestratorPool \<lparr>node_id = ''b'', OrchestratorPool = None\<rparr> = None \<and>
   selectOrchestrator [] (\<lambda>_. undefined) \<lparr>node_id = ''b'', OrchestratorPool = None\<rparr>
     \<lparr>pl_manifest = ''m'', pl_os = undefined\<rparr> = Inl ErrDiscovery"
proof -
  have h: "OrchestratorPool \<lparr>node_id = ''b'', OrchestratorPool = None\<rparr> = None" by simp
  show ?thesis using h selectOrchestrator_no_pool [OF h] by simp
qed

text \<open>
  C23: when the pool returns no candidate, selection fails with \<open>ErrNoOrchs\<close> and no
  session is built, even when the pool also returned an error: the length test comes
  first, so the pool's own error is dropped.
\<close>

theorem selectOrchestrator_no_candidates:
  assumes "OrchestratorPool n = Some pool" and "pool 1 = ([], err)"
  shows "selectOrchestrator profiles NewSession n cpl = Inl ErrNoOrchs"
  using assms by (simp add: selectOrchestrator_def)

theorem selectOrchestrator_no_candidates_witness:
  "OrchestratorPool \<lparr>node_id = ''b'', OrchestratorPool = Some (\<lambda>k. ([], Some ''dial tcp''))\<rparr> =
     Some (\<lambda>k. ([], Some ''dial tcp'')) \<and>
   (\<lambda>k::nat. ([] :: OrchestratorInfo list, Some ''dial tcp'')) 1 = ([], Some ''dial tcp'') \<and>
   selectOrchestrator [] (\<lambda>_. undefined)
     \<lparr>node_id = ''b'', OrchestratorPool = Some (\<lambda>k. ([], Some ''dial tcp''))\<rparr>
     \<lparr>pl_manifest = ''m'', pl_os = undefined\<rparr> = Inl ErrNoOrchs"
proof -
  have h1: "OrchestratorPool \<lparr>node_id = ''b'', OrchestratorPool = Some (\<lambda>k. ([], Some ''dial tcp''))\<rparr> =
     Some (\<lambda>k. ([], Some ''dial tcp''))" by simp
  have h2: "(\<lambda>k::nat. ([] :: OrchestratorInfo list, Some ''dial tcp'')) 1 = ([], Some ''dial tcp'')"
    by simp
  show ?thesis using h1 h2 selectOrchestrator_no_candidates [OF h1 h2] by simp
qed

text \<open>
  C24: with candidates and no error, the session binds the first candidate, the playlist's
  manifest and storage, the negotiated profiles, and a storage session for the
  candidate's first advertised endpoint (none when it advertises none).
\<close>

theorem selectOrchestrator_binds_first:
  assumes "OrchestratorPool n = Some pool" and "pool 1 = (tinfo # others, None)"
  shows "selectOrchestrator profiles NewSession n cpl =
           Inr \<lparr>Broadcaster = n, ManifestID = pl_manifest cpl, Profiles = profiles,
                OrchestratorInfo = tinfo,
                OrchestratorOS = (case storage tinfo of [] \<Rightarrow> None | o1 # _ \<Rightarrow> Some (NewSession o1)),
                BroadcasterOS = Some (pl_os cpl)\<rparr>"
  using assms by (simp add: selectOrchestrator_def split: list.splits)

theorem selectOrchestrator_binds_first_witness:
  "OrchestratorPool \<lparr>node_id = ''b'',
      OrchestratorPool = Some (\<lambda>k. ([\<lparr>transcoder = ''o1'', storage = []\<rparr>], None))\<rparr> =
     Some (\<lambda>k. ([\<lparr>transcoder = ''o1'', storage = []\<rparr>], None)) \<and>
   (\<lambda>k::nat. ([\<lparr>transcoder = ''o1'', storage = []\<rparr>], None :: string option)) 1 =
     (\<lparr>transcoder = ''o1'', storage = []\<rparr> # [], None) \<and>
   OrchestratorOS (projr (selectOrchestrator [] (\<lambda>_. undefined)
     \<lparr>node_id = ''b'', OrchestratorPool = Some (\<lambda>k. ([\<lparr>transcoder = ''o1'', storage = []\<rparr>], None))\<rparr>
     \<lparr>pl_manifest = ''m'', pl_os = undefined\<rparr>)) = None"
proof -
  have h1: "OrchestratorPool \<lparr>node_id = ''b'',
      OrchestratorPool = Some (\<lambda>k. ([\<lparr>transcoder = ''o1'', storage = []\<rparr>], None))\<rparr> =
     Some (\<lambda>k. ([\<lparr>transcoder = ''o1'', storage = []\<rparr>], None))" by simp
  have h2: "(\<lambda>k::nat. ([\<lparr>transcoder = ''o1'', storage = []\<rparr>], None :: string option)) 1 =
     (\<lparr>transcoder = ''o1'', storage = []\<rparr> # [], None)" by simp
  show ?thesis
    using h1 h2 selectOrchestrator_binds_first [OF h1 h2, of "[]" "\<lambda>_. undefined"
        "\<lparr>pl_manifest = ''m'', pl_os = undefined\<rparr>"] by simp
qed

end
