(* ===== verification/FanIn.thy ===== *)
theory FanIn
  imports Orchestrator
begin

text \<open>
  The fan-out/fan-in collection of transcoded renditions in \<open>processSegment\<close>
  (\<open>src/server/broadcast.go\<close> lines 121--184): one goroutine \<open>dlFunc(url, i)\<close> per
  result URL, a counter \<open>n\<close> decremented under a mutex by each goroutine's deferred
  function, and a waiter that blocks on the condition variable until \<open>n = 0\<close>.
  Each goroutine is a program counter over its atomic actions; the scheduler picks any
  goroutine that can move, so the step relation \<open>fanin_step\<close> contains every
  interleaving. Shared variables are those of the source: \<open>n\<close>, \<open>segHashes\<close>
  (written under the mutex), \<open>gotErr\<close> (read and written by \<open>errFunc\<close> without
  the mutex), and the goroutine's \<open>err\<close> variable, which \<open>dlFunc\<close> assigns with
  \<open>err = cpl.InsertHLSSegment(...)\<close> and therefore shares between all downloads.
  The playlist and the telemetry log are the shared collaborators.
\<close>

section \<open>Collaborators of a download task\<close>

datatype event =
    SegmentEmerged nat nat
  | SegmentUploadFailed nat nat string
  | SourceSegmentAppeared nat nat string string
  | SegmentTranscodeFailed string nat nat string
  | TranscodedSegmentAppeared nat nat string

text \<open>An \<open>InsertHLSSegment(profile, seqNo, uri, duration)\<close> call, as recorded by the playlist.\<close>

type_synonym pl_entry = "VideoProfile \<times> nat \<times> string \<times> float64"

text \<open>
  What a download task reads: the monitor flag, the segment's nonce, number and
  duration, the session's profiles and broadcaster storage, and the collaborators
  \<open>drivers.IsOwnExternal\<close>, \<open>drivers.GetSegmentData\<close>, \<open>crypto.Keccak256\<close> and the
  error \<open>cpl.InsertHLSSegment\<close> returns for an entry (the playlist appends the entry
  when the error is nil).
\<close>

record dl_ctx =
  dc_monitor :: bool
  dc_nonce :: nat
  dc_seq :: nat
  dc_duration :: float64
  dc_profiles :: "VideoProfile list"
  dc_bos :: "os_session option"
  dc_own_external :: "string \<Rightarrow> bool"
  dc_get_data :: "string \<Rightarrow> string + bytes"
  dc_keccak :: "bytes \<Rightarrow> bytes"
  dc_insert_err :: "pl_entry \<Rightarrow> string option"

text \<open>\<open>fmt.Sprintf("%s/%d.ts", profile.Name, seg.SeqNo)\<close>.\<close>

definition seg_name :: "string \<Rightarrow> nat \<Rightarrow> string" where
  "seg_name pname seqNo = pname @ ''/'' @ show_nat seqNo @ ''.ts''"

definition dl_entry :: "dl_ctx \<Rightarrow> nat \<Rightarrow> string \<Rightarrow> pl_entry" where
  "dl_entry C i url = (dc_profiles C ! i, dc_seq C, url, dc_duration C)"

section \<open>Goroutine states and the shared state\<close>

text \<open>
  The program counter of one \<open>dlFunc\<close> goroutine, with its local \<open>url\<close>:
  \<open>DlAppear\<close> before \<open>LogTranscodedSegmentAppeared\<close>, \<open>DlInsert\<close> before the
  playlist call, \<open>DlSetErr\<close> between the call's return and the assignment to the
  shared \<open>err\<close>, \<open>DlReadErr\<close> before \<open>if err != nil\<close>, \<open>DlErrCheck\<close> and
  \<open>DlErrReport\<close> inside \<open>errFunc\<close> (before the read of \<open>gotErr\<close>, before the
  report and the write), \<open>DlDefer\<close> before the deferred decrement.
\<close>

datatype dl_pc =
    DlStart
  | DlAppear string
  | DlInsert string
  | DlSetErr string "string option"
  | DlReadErr string
  | DlErrCheck string string string
  | DlErrReport string string string
  | DlDefer
  | DlDone

record fanin =
  pcs :: "dl_pc list"
  cnt :: nat \<comment> \<open>\<open>n\<close>\<close>
  gotErr :: bool
  errv :: "string option" \<comment> \<open>the shared \<open>err\<close>, nil after a successful \<open>SubmitSegment\<close>\<close>
  segHashes :: "bytes list"
  fi_playlist :: "pl_entry list"
  fi_events :: "event list"
  panicked :: bool
  joined :: bool

definition fanin_init :: "nat \<Rightarrow> pl_entry list \<Rightarrow> event list \<Rightarrow> fanin" where
  "fanin_init N pl ev =
     \<lparr>pcs = replicate N DlStart, cnt = N, gotErr = False, errv = None,
      segHashes = replicate N [], fi_playlist = pl, fi_events = ev,
      panicked = False, joined = False\<rparr>"

definition set_pc :: "nat \<Rightarrow> dl_pc \<Rightarrow> fanin \<Rightarrow> fanin" where
  "set_pc i p s = s\<lparr>pcs := (pcs s)[i := p]\<rparr>"

section \<open>One atomic action of a download goroutine\<close>

text \<open>
  The first action of \<open>dlFunc\<close> does not touch shared state but for the
  \<open>segHashes[i]\<close> write under the mutex, so it is one step, computed by
  \<open>dl_fetch\<close>: either no download is needed (no broadcaster storage, or the URL is
  already the broadcaster's own), or the download, the re-upload under the profile's
  name and the hash. \<open>sess.Profiles[i]\<close> out of range is a Go panic.
\<close>

datatype fetch_result = FetchErr string string | FetchPanic | Fetched string "bytes option"

definition dl_fetch :: "dl_ctx \<Rightarrow> nat \<Rightarrow> string \<Rightarrow> fetch_result" where
  "dl_fetch C i url =
     (case dc_bos C of
        None \<Rightarrow> Fetched url None
      | Some bos \<Rightarrow>
          if dc_own_external C url then Fetched url None
          else (case dc_get_data C url of
                  Inl e \<Rightarrow> FetchErr ''Download'' e
                | Inr data \<Rightarrow>
                    if length (dc_profiles C) \<le> i then FetchPanic
                    else (case os_save bos (seg_name (profile_name (dc_profiles C ! i)) (dc_seq C)) data of
                            Inl e \<Rightarrow> FetchErr ''SaveData'' e
                          | Inr newUrl \<Rightarrow> Fetched newUrl (Some (dc_keccak C data)))))"

text \<open>
  One action of goroutine \<open>i\<close> (started as \<open>dlFunc(url0, i)\<close>) from program counter
  \<open>p\<close>. Accessing \<open>sess.Profiles[i]\<close> out of range panics, which ends the process.
\<close>

fun dl_exec :: "dl_ctx \<Rightarrow> nat \<Rightarrow> string \<Rightarrow> dl_pc \<Rightarrow> fanin \<Rightarrow> fanin option" where
  "dl_exec C i url0 DlStart s =
     (case dl_fetch C i url0 of
        FetchErr sub e \<Rightarrow> Some (set_pc i (DlErrCheck sub url0 e) s)
      | FetchPanic \<Rightarrow> Some (s\<lparr>panicked := True\<rparr>)
      | Fetched url h \<Rightarrow>
          Some (set_pc i (DlAppear url)
                  (case h of None \<Rightarrow> s | Some hh \<Rightarrow> s\<lparr>segHashes := (segHashes s)[i := hh]\<rparr>)))"
| "dl_exec C i url0 (DlAppear url) s =
     (if \<not> dc_monitor C then Some (set_pc i (DlInsert url) s)
      else if length (dc_profiles C) \<le> i then Some (s\<lparr>panicked := True\<rparr>)
      else Some (set_pc i (DlInsert url)
                  (s\<lparr>fi_events := fi_events s @
                     [TranscodedSegmentAppeared (dc_nonce C) (dc_seq C)
                        (profile_name (dc_profiles C ! i))]\<rparr>)))"
| "dl_exec C i url0 (DlInsert url) s =
     (if length (dc_profiles C) \<le> i then Some (s\<lparr>panicked := True\<rparr>)
      else (let ent = dl_entry C i url; r = dc_insert_err C ent in
            Some (set_pc i (DlSetErr url r)
                    (case r of None \<Rightarrow> s\<lparr>fi_playlist := fi_playlist s @ [ent]\<rparr> | Some _ \<Rightarrow> s))))"
| "dl_exec C i url0 (DlSetErr url r) s = Some (set_pc i (DlReadErr url) (s\<lparr>errv := r\<rparr>))"
| "dl_exec C i url0 (DlReadErr url) s =
     (case errv s of
        Some e \<Rightarrow> Some (set_pc i (DlErrCheck ''Playlist'' url e) s)
      | None \<Rightarrow> Some (set_pc i DlDefer s))"
| "dl_exec C i url0 (DlErrCheck sub url e) s =
     (if dc_monitor C \<and> \<not> gotErr s then Some (set_pc i (DlErrReport sub url e) s)
      else Some (set_pc i DlDefer s))"
| "dl_exec C i url0 (DlErrReport sub url e) s =
     Some (set_pc i DlDefer
             (s\<lparr>fi_events := fi_events s @ [SegmentTranscodeFailed sub (dc_nonce C) (dc_seq C) e],
                gotErr := True\<rparr>))"
| "dl_exec C i url0 DlDefer s = Some (set_pc i DlDone (s\<lparr>cnt := cnt s - 1\<rparr>))"
| "dl_exec C i url0 DlDone s = None"

definition dl_step :: "dl_ctx \<Rightarrow> string list \<Rightarrow> nat \<Rightarrow> fanin \<Rightarrow> fanin option" where
  "dl_step C urls i s =
     (if panicked s \<or> joined s \<or> length (pcs s) \<le> i then None
      else dl_exec C i (urls ! i) (pcs s ! i) s)"

text \<open>
  The waiter: \<open>for n != 0 { cond.Wait() }\<close> re-reads \<open>n\<close> under the mutex, so it
  leaves the loop exactly when the counter is zero (a signal before the wait is not
  lost, because the waiter never waits when \<open>n\<close> is already zero).
\<close>

inductive fanin_step :: "dl_ctx \<Rightarrow> string list \<Rightarrow> fanin \<Rightarrow> fanin \<Rightarrow> bool" where
  task: "dl_step C urls i s = Some s' \<Longrightarrow> fanin_step C urls s s'"
| join: "\<not> panicked s \<Longrightarrow> \<not> joined s \<Longrightarrow> cnt s = 0 \<Longrightarrow> fanin_step C urls s (s\<lparr>joined := True\<rparr>)"

definition fanin_reach :: "dl_ctx \<Rightarrow> string list \<Rightarrow> pl_entry list \<Rightarrow> event list \<Rightarrow> fanin \<Rightarrow> bool" where
  "fanin_reach C urls pl ev s \<longleftrightarrow> (fanin_step C urls)\<^sup>*\<^sup>* (fanin_init (length urls) pl ev) s"

section \<open>Schedules\<close>

text \<open>
  A schedule names the goroutine that moves at each step (\<open>None\<close> for the waiter);
  running it is executable, so a concrete interleaving evaluates by \<open>simp\<close>.
\<close>

definition sched_step :: "dl_ctx \<Rightarrow> string list \<Rightarrow> nat option \<Rightarrow> fanin \<Rightarrow> fanin option" where
  "sched_step C urls k s =
     (case k of
        Some i \<Rightarrow> dl_step C urls i s
      | None \<Rightarrow> if \<not> panicked s \<and> \<not> joined s \<and> cnt s = 0 then Some (s\<lparr>joined := True\<rparr>) else None)"

fun run_sched :: "dl_ctx \<Rightarrow> string list \<Rightarrow> nat option list \<Rightarrow> fanin \<Rightarrow> fanin option" where
  "run_sched C urls [] s = Some s"
| "run_sched C urls (k # ks) s =
     (case sched_step C urls k s of None \<Rightarrow> None | Some s' \<Rightarrow> run_sched C urls ks s')"

section \<open>Measures and per-task summaries\<close>

text \<open>
  The number of atomic actions a goroutine may still take from a program counter; it
  drops with every action, which bounds every interleaving.
\<close>

fun rank :: "dl_pc \<Rightarrow> nat" where
  "rank DlStart = 8"
| "rank (DlAppear _) = 7"
| "rank (DlInsert _) = 6"
| "rank (DlSetErr _ _) = 5"
| "rank (DlReadErr _) = 4"
| "rank (DlErrCheck _ _ _) = 3"
| "rank (DlErrReport _ _ _) = 2"
| "rank DlDefer = 1"
| "rank DlDone = 0"

definition fanin_measure :: "fanin \<Rightarrow> nat" where
  "fanin_measure s =
     (if panicked s \<or> joined s then 0 else Suc (\<Sum>j<length (pcs s). rank (pcs s ! j)))"

text \<open>The goroutines that have not run their deferred decrement yet.\<close>

definition pending :: "dl_pc list \<Rightarrow> nat" where
  "pending ps = (\<Sum>j<length ps. if ps ! j = DlDone then 0 else 1)"

text \<open>
  The playlist entry goroutine \<open>i\<close> adds when it runs alone from the start: the
  sequential meaning of \<open>dlFunc(url0, i)\<close> for the playlist.
\<close>

definition accepted :: "dl_ctx \<Rightarrow> nat \<Rightarrow> string \<Rightarrow> pl_entry list" where
  "accepted C i url0 =
     (case dl_fetch C i url0 of
        Fetched url _ \<Rightarrow> (if dc_insert_err C (dl_entry C i url) = None then [dl_entry C i url] else [])
      | _ \<Rightarrow> [])"

definition accepted_entries :: "dl_ctx \<Rightarrow> string list \<Rightarrow> pl_entry list" where
  "accepted_entries C urls = concat (map (\<lambda>i. accepted C i (urls ! i)) [0..<length urls])"

definition contrib :: "dl_ctx \<Rightarrow> nat \<Rightarrow> string \<Rightarrow> dl_pc \<Rightarrow> pl_entry multiset" where
  "contrib C i url0 p = (if rank p \<le> 5 then mset (accepted C i url0) else {#})"

text \<open>Before its playlist call, a goroutine's \<open>url\<close> is the one its first action produced.\<close>

definition pc_fetched :: "dl_ctx \<Rightarrow> nat \<Rightarrow> string \<Rightarrow> dl_pc \<Rightarrow> bool" where
  "pc_fetched C i url0 p =
     (case p of
        DlAppear url \<Rightarrow> (case dl_fetch C i url0 of Fetched u _ \<Rightarrow> u = url | _ \<Rightarrow> False)
      | DlInsert url \<Rightarrow> (case dl_fetch C i url0 of Fetched u _ \<Rightarrow> u = url | _ \<Rightarrow> False)
      | _ \<Rightarrow> True)"

definition fanin_inv :: "dl_ctx \<Rightarrow> string list \<Rightarrow> pl_entry list \<Rightarrow> fanin \<Rightarrow> bool" where
  "fanin_inv C urls pl s \<longleftrightarrow>
     length (pcs s) = length urls \<and> length (segHashes s) = length urls \<and>
     cnt s = pending (pcs s) \<and> (joined s \<longrightarrow> cnt s = 0) \<and>
     (\<forall>j<length urls. pc_fetched C j (urls ! j) (pcs s ! j)) \<and>
     (\<exists>new. fi_playlist s = pl @ new \<and>
            mset new = (\<Sum>j<length urls. contrib C j (urls ! j) (pcs s ! j)))"

text \<open>The \<open>LogSegmentTranscodeFailed\<close> reports in a telemetry log.\<close>

definition fail_reports :: "event list \<Rightarrow> nat" where
  "fail_reports evs =
     length (filter (\<lambda>e. case e of SegmentTranscodeFailed _ _ _ _ \<Rightarrow> True | _ \<Rightarrow> False) evs)"

text \<open>
  The scenario of the spec's section 8: goroutine \<open>k\<close>'s first action fails and every
  other goroutine fetches its rendition and has it accepted by the playlist.
\<close>

definition single_failure :: "dl_ctx \<Rightarrow> string list \<Rightarrow> nat \<Rightarrow> bool" where
  "single_failure C urls k \<longleftrightarrow>
     k < length urls \<and>
     (case dl_fetch C k (urls ! k) of FetchErr _ _ \<Rightarrow> True | _ \<Rightarrow> False) \<and>
     (\<forall>j<length urls. j \<noteq> k \<longrightarrow>
        (case dl_fetch C j (urls ! j) of
           Fetched u _ \<Rightarrow> dc_insert_err C (dl_entry C j u) = None
         | _ \<Rightarrow> False))"

text \<open>
  In that scenario the other goroutines never see an error and goroutine \<open>k\<close> never
  reaches the playlist call; the shared \<open>err\<close> stays nil, and \<open>gotErr\<close> and the
  failure reports record whether \<open>k\<close> has passed its report.
\<close>

fun other_pc_ok :: "dl_pc \<Rightarrow> bool" where
  "other_pc_ok (DlSetErr _ r) = (r = None)"
| "other_pc_ok (DlErrCheck _ _ _) = False"
| "other_pc_ok (DlErrReport _ _ _) = False"
| "other_pc_ok _ = True"

fun failing_pc_ok :: "dl_ctx \<Rightarrow> dl_pc \<Rightarrow> bool" where
  "failing_pc_ok C (DlAppear _) = False"
| "failing_pc_ok C (DlInsert _) = False"
| "failing_pc_ok C (DlSetErr _ _) = False"
| "failing_pc_ok C (DlReadErr _) = False"
| "failing_pc_ok C (DlErrReport _ _ _) = dc_monitor C"
| "failing_pc_ok C _ = True"

definition single_failure_inv :: "dl_ctx \<Rightarrow> string list \<Rightarrow> nat \<Rightarrow> event list \<Rightarrow> fanin \<Rightarrow> bool" where
  "single_failure_inv C urls k ev s \<longleftrightarrow>
     errv s = None \<and>
     (\<forall>j<length urls. j \<noteq> k \<longrightarrow> other_pc_ok (pcs s ! j)) \<and>
     failing_pc_ok C (pcs s ! k) \<and>
     (gotErr s \<longleftrightarrow> dc_monitor C \<and> rank (pcs s ! k) < 2) \<and>
     fail_reports (fi_events s) =
       fail_reports ev + (if dc_monitor C \<and> rank (pcs s ! k) < 2 then 1 else 0)"

text \<open>
  Concrete collaborators for the witnesses: two profiles, a broadcaster storage that
  accepts every upload, downloads that fail for URLs starting with \<open>x\<close>, and a
  playlist that rejects the URI \<open>bad\<close>.
\<close>

definition demo_os :: os_session where
  "demo_os = \<lparr>os_external = False, os_save = (\<lambda>name data. Inr (''bcast/'' @ name))\<rparr>"

definition demo_ctx :: "bool \<Rightarrow> os_session option \<Rightarrow> dl_ctx" where
  "demo_ctx mon bos =
     \<lparr>dc_monitor = mon, dc_nonce = 7, dc_seq = 3, dc_duration = 2,
      dc_profiles = [\<lparr>profile_name = ''P720''\<rparr>, \<lparr>profile_name = ''P360''\<rparr>],
      dc_bos = bos, dc_own_external = (\<lambda>u. False),
      dc_get_data = (\<lambda>u. if take 1 u = ''x'' then Inl ''timeout'' else Inr [1, 2, 3]),
      dc_keccak = rev,
      dc_insert_err = (\<lambda>(p, n, u, d). if u = ''bad'' then Some ''rejected'' else None)\<rparr>"

section \<open>Lemmas: one action of a goroutine\<close>

lemmas dl_unfold = set_pc_def dl_step_def Let_def

lemma dl_exec_frame:
  assumes "dl_exec C i url0 p s = Some s'"
  shows "joined s' = joined s \<and>
         (s' = s\<lparr>panicked := True\<rparr> \<or>
          panicked s' = panicked s \<and> (\<exists>p'. pcs s' = (pcs s)[i := p'] \<and> rank p' < rank p))"
  using assms
  by (cases p) (auto simp: dl_unfold split: fetch_result.splits option.splits if_splits)

lemma dl_step_Some:
  "dl_step C urls i s = Some s' \<Longrightarrow>
     \<not> panicked s \<and> \<not> joined s \<and> i < length (pcs s) \<and> dl_exec C i (urls ! i) (pcs s ! i) s = Some s'"
  by (auto simp: dl_step_def split: if_splits)

lemma fanin_step_measure:
  "fanin_step C urls s s' \<Longrightarrow> fanin_measure s' < fanin_measure s"
proof (induction rule: fanin_step.induct)
  case (task C urls i s s')
  then have pre: "\<not> panicked s" "\<not> joined s" "i < length (pcs s)"
    and ex: "dl_exec C i (urls ! i) (pcs s ! i) s = Some s'"
    by (auto dest: dl_step_Some)
  from dl_exec_frame [OF ex] pre show ?case
    by (auto simp: fanin_measure_def intro!: sum_nth_update_less)
next
  case (join s C urls)
  then show ?case by (simp add: fanin_measure_def)
qed

lemma dl_exec_effect:
  assumes "dl_exec C i url0 p s = Some s'" and "\<not> panicked s'" and "pc_fetched C i url0 p"
  shows "\<exists>p' d. pcs s' = (pcs s)[i := p'] \<and> pc_fetched C i url0 p' \<and>
           (p' = DlDone \<longleftrightarrow> p = DlDefer) \<and> cnt s' = (if p = DlDefer then cnt s - 1 else cnt s) \<and>
           length (segHashes s') = length (segHashes s) \<and>
           fi_playlist s' = fi_playlist s @ d \<and> mset d + contrib C i url0 p = contrib C i url0 p'"
  using assms
  by (cases p)
     (auto simp: dl_unfold contrib_def accepted_def pc_fetched_def
           split: fetch_result.splits option.splits if_splits)

lemma dl_fetch_FetchPanic: "dl_fetch C i url0 = FetchPanic \<Longrightarrow> length (dc_profiles C) \<le> i"
  by (auto simp: dl_fetch_def split: option.splits if_splits sum.splits)

lemma dl_exec_panics:
  "dl_exec C i url0 p s = Some s' \<Longrightarrow> panicked s' \<Longrightarrow> panicked s \<or> length (dc_profiles C) \<le> i"
  by (cases p) (auto simp: dl_unfold dest: dl_fetch_FetchPanic split: fetch_result.splits option.splits if_splits)

lemma dl_exec_appends:
  "dl_exec C i url0 p s = Some s' \<Longrightarrow>
     (\<exists>d. fi_playlist s' = fi_playlist s @ d) \<and> (\<exists>e. fi_events s' = fi_events s @ e)"
  by (cases p) (auto simp: dl_unfold split: fetch_result.splits option.splits if_splits)

lemma dl_exec_progress: "p \<noteq> DlDone \<Longrightarrow> \<exists>s'. dl_exec C i url0 p s = Some s'"
  by (cases p) (auto simp: Let_def split: fetch_result.splits option.splits)

section \<open>Lemmas: the invariant of the collection\<close>

lemma pending_update:
  assumes "i < length ps" and "ps ! i \<noteq> DlDone"
  shows "pending (ps[i := p']) = (if p' = DlDone then pending ps - 1 else pending ps)"
  using sum_nth_update [OF assms(1), of "\<lambda>j q. if q = DlDone then 0 else (1::nat)" p'] assms(2)
  by (auto simp: pending_def)

lemma pending_zero: "pending ps = 0 \<Longrightarrow> j < length ps \<Longrightarrow> ps ! j = DlDone"
  by (auto simp: pending_def split: if_splits)

lemma fanin_inv_init: "fanin_inv C urls pl (fanin_init (length urls) pl ev)"
proof -
  let ?N = "length urls"
  have "pending (replicate ?N DlStart) = (\<Sum>j<?N. 1)"
    unfolding pending_def by (rule sum.cong) auto
  moreover have "(\<Sum>j<?N. contrib C j (urls ! j) (replicate ?N DlStart ! j)) = 0"
    by (rule sum.neutral) (simp add: contrib_def)
  ultimately show ?thesis
    by (simp add: fanin_inv_def fanin_init_def pc_fetched_def)
qed

lemma fanin_inv_task:
  assumes step: "dl_step C urls i s = Some s'" and inv: "fanin_inv C urls pl s"
  shows "fanin_inv C urls pl s'"
proof -
  let ?p = "pcs s ! i"
  from dl_step_Some [OF step] have pre: "\<not> panicked s" "\<not> joined s" "i < length (pcs s)"
    and ex: "dl_exec C i (urls ! i) ?p s = Some s'" by auto
  from inv pre(3) have len: "length (pcs s) = length urls" and iu: "i < length urls"
    by (auto simp: fanin_inv_def)
  show ?thesis
  proof (cases "panicked s'")
    case True
    with dl_exec_frame [OF ex] pre inv show ?thesis by (auto simp: fanin_inv_def)
  next
    case False
    from inv iu have "pc_fetched C i (urls ! i) ?p" by (simp add: fanin_inv_def)
    from dl_exec_effect [OF ex False this] obtain p' d where
      pcs': "pcs s' = (pcs s)[i := p']" and fetched': "pc_fetched C i (urls ! i) p'"
      and done': "(p' = DlDone) = (?p = DlDefer)"
      and cnt': "cnt s' = (if ?p = DlDefer then cnt s - 1 else cnt s)"
      and hashes': "length (segHashes s') = length (segHashes s)"
      and pl': "fi_playlist s' = fi_playlist s @ d"
      and d: "mset d + contrib C i (urls ! i) ?p = contrib C i (urls ! i) p'"
      by blast
    have notdone: "?p \<noteq> DlDone" using ex by auto
    from dl_exec_frame [OF ex] have joined': "joined s' = joined s" by simp
    from inv obtain new where new: "fi_playlist s = pl @ new"
      and mnew: "mset new = (\<Sum>j<length urls. contrib C j (urls ! j) (pcs s ! j))"
      by (auto simp: fanin_inv_def)
    let ?S' = "\<Sum>j<length urls. contrib C j (urls ! j) (pcs s' ! j)"
    have "?S' + contrib C i (urls ! i) ?p = (mset new + mset d) + contrib C i (urls ! i) ?p"
      using sum_nth_update [OF pre(3), of "\<lambda>j q. contrib C j (urls ! j) q" p'] len mnew d pcs'
      by (simp add: add.assoc)
    then have sum': "mset new + mset d = ?S'" by simp
    have "cnt s' = pending (pcs s')"
      using inv pending_update [OF pre(3) notdone, of p'] pcs' cnt' done'
      by (auto simp: fanin_inv_def)
    moreover have "\<forall>j<length urls. pc_fetched C j (urls ! j) (pcs s' ! j)"
    proof (intro allI impI)
      fix j assume j: "j < length urls"
      show "pc_fetched C j (urls ! j) (pcs s' ! j)"
      proof (cases "j = i")
        case True
        with fetched' pcs' pre(3) show ?thesis by simp
      next
        case False
        with inv j pcs' show ?thesis by (simp add: fanin_inv_def)
      qed
    qed
    ultimately show ?thesis
      using inv pcs' hashes' joined' pre(2) pl' new sum'
      by (auto simp: fanin_inv_def)
  qed
qed

lemma fanin_inv_step: "fanin_step C urls s s' \<Longrightarrow> fanin_inv C urls pl s \<Longrightarrow> fanin_inv C urls pl s'"
proof (induction rule: fanin_step.induct)
  case (task C urls i s s')
  then show ?case by (rule fanin_inv_task)
next
  case (join s C urls)
  then show ?case by (simp add: fanin_inv_def)
qed

lemma fanin_reach_inv: "fanin_reach C urls pl ev s \<Longrightarrow> fanin_inv C urls pl s"
  unfolding fanin_reach_def
proof (induction rule: rtranclp_induct)
  case base
  then show ?case by (rule fanin_inv_init)
next
  case (step t u)
  then show ?case by (blast intro: fanin_inv_step)
qed

section \<open>Lemmas: schedules, termination and completion of the join\<close>

lemma sched_step_sound: "sched_step C urls k s = Some t \<Longrightarrow> fanin_step C urls s t"
  by (auto simp: sched_step_def split: option.splits if_splits intro: fanin_step.intros)

lemma sched_step_complete: "fanin_step C urls s t \<Longrightarrow> \<exists>k. sched_step C urls k s = Some t"
proof (induction rule: fanin_step.induct)
  case (task C urls i s s')
  then have "sched_step C urls (Some i) s = Some s'" by (simp add: sched_step_def)
  then show ?case by blast
next
  case (join s C urls)
  then have "sched_step C urls None s = Some (s\<lparr>joined := True\<rparr>)" by (simp add: sched_step_def)
  then show ?case by blast
qed

lemma run_sched_sound:
  "run_sched C urls ks s = Some t \<Longrightarrow> (fanin_step C urls)\<^sup>*\<^sup>* s t"
proof (induction ks arbitrary: s)
  case Nil
  then show ?case by simp
next
  case (Cons k ks)
  then obtain s' where s': "sched_step C urls k s = Some s'"
    and rest: "run_sched C urls ks s' = Some t"
    by (auto split: option.splits)
  from sched_step_sound [OF s'] show ?case
    by (rule converse_rtranclp_into_rtranclp [OF _ Cons.IH [OF rest]])
qed

lemma fanin_no_panic:
  assumes "fanin_reach C urls pl ev s" and "length urls \<le> length (dc_profiles C)"
  shows "\<not> panicked s"
  using assms(1) unfolding fanin_reach_def
proof (induction rule: rtranclp_induct)
  case base
  then show ?case by (simp add: fanin_init_def)
next
  case (step t u)
  from step.hyps(1) have inv: "fanin_inv C urls pl t"
    by (rule fanin_reach_inv [unfolded fanin_reach_def])
  from step.hyps(2) show ?case
  proof cases
    case (task i)
    from dl_step_Some [OF this] have "i < length (pcs t)"
      and ex: "dl_exec C i (urls ! i) (pcs t ! i) t = Some u" by auto
    with inv assms(2) step.IH dl_exec_panics [OF ex] show ?thesis
      by (auto simp: fanin_inv_def)
  next
    case join
    with step.IH show ?thesis by simp
  qed
qed

lemma fanin_progress:
  assumes "fanin_inv C urls pl s" and "\<not> panicked s" and "\<not> joined s"
  shows "\<exists>s'. fanin_step C urls s s'"
proof (cases "\<exists>j<length (pcs s). pcs s ! j \<noteq> DlDone")
  case True
  then obtain j where j: "j < length (pcs s)" "pcs s ! j \<noteq> DlDone" by blast
  from dl_exec_progress [OF j(2)] obtain s' where "dl_exec C j (urls ! j) (pcs s ! j) s = Some s'"
    by blast
  with j assms(2,3) have "dl_step C urls j s = Some s'" by (simp add: dl_step_def)
  then show ?thesis by (blast intro: fanin_step.task)
next
  case False
  then have "pending (pcs s) = 0" by (auto simp: pending_def intro: sum.neutral)
  with assms have "fanin_step C urls s (s\<lparr>joined := True\<rparr>)"
    by (auto simp: fanin_inv_def intro: fanin_step.join)
  then show ?thesis by blast
qed

lemma fanin_reach_step:
  "fanin_reach C urls pl ev s \<Longrightarrow> fanin_step C urls s s' \<Longrightarrow> fanin_reach C urls pl ev s'"
  unfolding fanin_reach_def by (rule rtranclp.rtrancl_into_rtrancl)

text \<open>
  C1: when there are no more result URLs than negotiated profiles, an interleaving can
  only stop with the waiter past the join: the collection never hangs and never panics.
\<close>

theorem fanin_join_completes:
  assumes "fanin_reach C urls pl ev s" and "length urls \<le> length (dc_profiles C)"
    and "\<not> (\<exists>s'. fanin_step C urls s s')"
  shows "joined s"
  using fanin_progress [OF fanin_reach_inv [OF assms(1)] fanin_no_panic [OF assms(1,2)]] assms(3)
  by blast

lemma fanin_step_joined: "joined s \<Longrightarrow> \<not> fanin_step C urls s s'"
  by (auto elim: fanin_step.cases simp: dl_step_def)

theorem fanin_join_completes_witness:
  "fanin_reach (demo_ctx False None) [''a'', ''b''] [] []
     (the (run_sched (demo_ctx False None) [''a'', ''b'']
        [Some 0, Some 1, Some 0, Some 1, Some 0, Some 1, Some 0, Some 1, Some 0, Some 1,
         Some 0, Some 1, None] (fanin_init (length [''a'', ''b'']) [] []))) \<and>
   length [''a'', ''b''] \<le> length (dc_profiles (demo_ctx False None)) \<and>
   \<not> (\<exists>s'. fanin_step (demo_ctx False None) [''a'', ''b'']
        (the (run_sched (demo_ctx False None) [''a'', ''b'']
           [Some 0, Some 1, Some 0, Some 1, Some 0, Some 1, Some 0, Some 1, Some 0, Some 1,
            Some 0, Some 1, None] (fanin_init (length [''a'', ''b'']) [] []))) s') \<and>
   joined (the (run_sched (demo_ctx False None) [''a'', ''b'']
        [Some 0, Some 1, Some 0, Some 1, Some 0, Some 1, Some 0, Some 1, Some 0, Some 1,
         Some 0, Some 1, None] (fanin_init (length [''a'', ''b'']) [] [])))"
proof -
  let ?C = "demo_ctx False None" and ?ks = "[Some 0, Some 1, Some 0, Some 1, Some 0, Some 1,
    Some 0, Some 1, Some 0, Some 1, Some 0, Some 1, None]"
  let ?t = "the (run_sched ?C [''a'', ''b''] ?ks (fanin_init (length [''a'', ''b'']) [] []))"
  have run: "run_sched ?C [''a'', ''b''] ?ks (fanin_init (length [''a'', ''b'']) [] []) = Some ?t"
    by (simp add: demo_ctx_def fanin_init_def sched_step_def dl_step_def set_pc_def
        dl_fetch_def dl_entry_def)
  have reach: "fanin_reach ?C [''a'', ''b''] [] [] ?t"
    unfolding fanin_reach_def by (rule run_sched_sound [OF run])
  have len: "length [''a'', ''b''] \<le> length (dc_profiles ?C)" by (simp add: demo_ctx_def)
  have "joined ?t"
    by (simp add: demo_ctx_def fanin_init_def sched_step_def dl_step_def set_pc_def
        dl_fetch_def dl_entry_def)
  then have final: "\<not> (\<exists>s'. fanin_step ?C [''a'', ''b''] ?t s')"
    using fanin_step_joined by blast
  show ?thesis using reach len final fanin_join_completes [OF reach len final] by blast
qed

lemma fanin_join_reachable:
  assumes "fanin_reach C urls pl ev s" and "length urls \<le> length (dc_profiles C)"
  shows "\<exists>t. (fanin_step C urls)\<^sup>*\<^sup>* s t \<and> joined t"
  using assms(1)
proof (induction s rule: measure_induct_rule [of fanin_measure])
  case (less s)
  show ?case
  proof (cases "joined s")
    case True
    then show ?thesis by blast
  next
    case False
    from fanin_progress [OF fanin_reach_inv [OF less.prems] fanin_no_panic [OF less.prems assms(2)] False]
    obtain s' where st: "fanin_step C urls s s'" by blast
    from less.IH [OF fanin_step_measure [OF st] fanin_reach_step [OF less.prems st]]
    obtain t where "(fanin_step C urls)\<^sup>*\<^sup>* s' t" "joined t" by blast
    with st show ?thesis by (blast intro: converse_rtranclp_into_rtranclp)
  qed
qed

section \<open>Lemmas: what the collection leaves in the playlist and the log\<close>

lemma fanin_joined_all_done:
  assumes "fanin_reach C urls pl ev s" and "joined s"
  shows "\<forall>j<length urls. pcs s ! j = DlDone"
  using fanin_reach_inv [OF assms(1)] assms(2) pending_zero by (auto simp: fanin_inv_def)

lemma fanin_joined_playlist:
  assumes "fanin_reach C urls pl ev s" and "joined s"
  shows "\<exists>new. fi_playlist s = pl @ new \<and> mset new = mset (accepted_entries C urls)"
proof -
  from fanin_reach_inv [OF assms(1)] obtain new where new: "fi_playlist s = pl @ new"
    and mnew: "mset new = (\<Sum>j<length urls. contrib C j (urls ! j) (pcs s ! j))"
    by (auto simp: fanin_inv_def)
  have "(\<Sum>j<length urls. contrib C j (urls ! j) (pcs s ! j)) =
        (\<Sum>j<length urls. mset (accepted C j (urls ! j)))"
    using fanin_joined_all_done [OF assms] by (intro sum.cong) (auto simp: contrib_def)
  with new mnew show ?thesis
    by (simp add: accepted_entries_def mset_concat_map_upt)
qed

text \<open>
  C2: whatever the interleaving, after the join the playlist holds what it held before
  followed by exactly the renditions the goroutines would insert one at a time (as a
  multiset: their order is the scheduler's). No profile's failure loses another's result.
\<close>

theorem fanin_playlist_result:
  assumes "fanin_reach C urls pl ev s" and "joined s"
  shows "\<exists>new. fi_playlist s = pl @ new \<and> mset new = mset (accepted_entries C urls)"
  using assms by (rule fanin_joined_playlist)

theorem fanin_playlist_result_witness:
  "fanin_reach (demo_ctx True None) [''a'', ''b''] [] []
     (the (run_sched (demo_ctx True None) [''a'', ''b'']
        [Some 0, Some 1, Some 0, Some 1, Some 0, Some 1, Some 0, Some 1, Some 0, Some 1,
         Some 0, Some 1, None] (fanin_init (length [''a'', ''b'']) [] []))) \<and>
   joined (the (run_sched (demo_ctx True None) [''a'', ''b'']
        [Some 0, Some 1, Some 0, Some 1, Some 0, Some 1, Some 0, Some 1, Some 0, Some 1,
         Some 0, Some 1, None] (fanin_init (length [''a'', ''b'']) [] []))) \<and>
   (\<exists>new. fi_playlist (the (run_sched (demo_ctx True None) [''a'', ''b'']
        [Some 0, Some 1, Some 0, Some 1, Some 0, Some 1, Some 0, Some 1, Some 0, Some 1,
         Some 0, Some 1, None] (fanin_init (length [''a'', ''b'']) [] []))) = [] @ new \<and>
      mset new = mset (accepted_entries (demo_ctx True None) [''a'', ''b'']))"
proof -
  let ?C = "demo_ctx True None" and ?ks = "[Some 0, Some 1, Some 0, Some 1, Some 0, Some 1,
    Some 0, Some 1, Some 0, Some 1, Some 0, Some 1, None]"
  let ?t = "the (run_sched ?C [''a'', ''b''] ?ks (fanin_init (length [''a'', ''b'']) [] []))"
  have run: "run_sched ?C [''a'', ''b''] ?ks (fanin_init (length [''a'', ''b'']) [] []) = Some ?t"
    by (simp add: demo_ctx_def fanin_init_def sched_step_def dl_step_def set_pc_def
        dl_fetch_def dl_entry_def)
  have reach: "fanin_reach ?C [''a'', ''b''] [] [] ?t"
    unfolding fanin_reach_def by (rule run_sched_sound [OF run])
  have j: "joined ?t"
    by (simp add: demo_ctx_def fanin_init_def sched_step_def dl_step_def set_pc_def
        dl_fetch_def dl_entry_def)
  from reach j fanin_playlist_result [OF reach j] show ?thesis by blast
qed

lemma fail_reports_append [simp]: "fail_reports (xs @ ys) = fail_reports xs + fail_reports ys"
  by (simp add: fail_reports_def)

lemma fail_reports_simps [simp]:
  "fail_reports [] = 0"
  "fail_reports [SegmentTranscodeFailed sub n q e] = 1"
  "fail_reports [TranscodedSegmentAppeared n q pn] = 0"
  "fail_reports [SegmentEmerged n q] = 0"
  "fail_reports [SegmentUploadFailed n q e] = 0"
  "fail_reports [SourceSegmentAppeared n q m pn] = 0"
  by (simp_all add: fail_reports_def)

text \<open>
  C4: \<open>gotErr\<close> is read and written by \<open>errFunc\<close> without the mutex, so two failing
  downloads of one segment can both read \<open>false\<close> and both report: the
  once-per-segment report the comment promises does not hold under interleaving.
\<close>

theorem fanin_duplicate_failure_reports:
  assumes "dc_monitor C" and "length urls = 2"
    and "dl_fetch C 0 (urls ! 0) = FetchErr sa ea" and "dl_fetch C 1 (urls ! 1) = FetchErr sb eb"
  shows "\<exists>s. fanin_reach C urls pl ev s \<and> joined s \<and> fail_reports (fi_events s) = fail_reports ev + 2"
proof -
  let ?ks = "[Some 0, Some 1, Some 0, Some 1, Some 0, Some 1, Some 0, Some 1, None]"
  have "\<exists>t. run_sched C urls ?ks (fanin_init (length urls) pl ev) = Some t \<and> joined t \<and>
            fail_reports (fi_events t) = fail_reports ev + 2"
    using assms
    by (simp add: fanin_init_def sched_step_def dl_step_def set_pc_def numeral_2_eq_2 fail_reports_def)
  then obtain t where run: "run_sched C urls ?ks (fanin_init (length urls) pl ev) = Some t"
    and t: "joined t" "fail_reports (fi_events t) = fail_reports ev + 2" by blast
  from run_sched_sound [OF run] have "fanin_reach C urls pl ev t" by (simp add: fanin_reach_def)
  with t show ?thesis by blast
qed

theorem fanin_duplicate_failure_reports_witness:
  "dc_monitor (demo_ctx True (Some demo_os)) \<and> length [''x1'', ''x2''] = 2 \<and>
   dl_fetch (demo_ctx True (Some demo_os)) 0 ([''x1'', ''x2''] ! 0) = FetchErr ''Download'' ''timeout'' \<and>
   dl_fetch (demo_ctx True (Some demo_os)) 1 ([''x1'', ''x2''] ! 1) = FetchErr ''Download'' ''timeout'' \<and>
   (\<exists>s. fanin_reach (demo_ctx True (Some demo_os)) [''x1'', ''x2''] [] [] s \<and> joined s \<and>
        fail_reports (fi_events s) = fail_reports [] + 2)"
proof -
  have h: "dc_monitor (demo_ctx True (Some demo_os))" "length [''x1'', ''x2''] = 2"
    "dl_fetch (demo_ctx True (Some demo_os)) 0 ([''x1'', ''x2''] ! 0) = FetchErr ''Download'' ''timeout''"
    "dl_fetch (demo_ctx True (Some demo_os)) 1 ([''x1'', ''x2''] ! 1) = FetchErr ''Download'' ''timeout''"
    by (simp_all add: demo_ctx_def dl_fetch_def)
  show ?thesis using h fanin_duplicate_failure_reports [OF h, of "[]" "[]"] by blast
qed

text \<open>
  C5: \<open>err = cpl.InsertHLSSegment(...)\<close> in \<open>dlFunc\<close> assigns the goroutine's
  \<open>err\<close>, shared by all downloads. A successful insert of another profile can
  overwrite a rejection before the rejected goroutine reads it, so a rendition missing
  from the playlist is never reported, even with the monitor on.
\<close>

theorem fanin_playlist_error_unreported:
  assumes "dc_monitor C" and "length urls = 2" and "2 \<le> length (dc_profiles C)"
    and "dl_fetch C 0 (urls ! 0) = Fetched u0 h0" and "dl_fetch C 1 (urls ! 1) = Fetched u1 h1"
    and "dc_insert_err C (dl_entry C 0 u0) = Some e0" and "dc_insert_err C (dl_entry C 1 u1) = None"
  shows "\<exists>s. fanin_reach C urls pl ev s \<and> joined s \<and> fi_playlist s = pl @ [dl_entry C 1 u1] \<and>
             fail_reports (fi_events s) = fail_reports ev"
proof -
  let ?ks = "[Some 0, Some 0, Some 0, Some 0, Some 1, Some 1, Some 1, Some 1, Some 0, Some 0,
              Some 1, Some 1, None]"
  have "\<exists>t. run_sched C urls ?ks (fanin_init (length urls) pl ev) = Some t \<and> joined t \<and>
            fi_playlist t = pl @ [dl_entry C 1 u1] \<and> fail_reports (fi_events t) = fail_reports ev"
    using assms
    by (cases h0; cases h1)
       (auto simp: fanin_init_def sched_step_def dl_step_def set_pc_def numeral_2_eq_2 Let_def
          fail_reports_def)
  then obtain t where run: "run_sched C urls ?ks (fanin_init (length urls) pl ev) = Some t"
    and t: "joined t" "fi_playlist t = pl @ [dl_entry C 1 u1]"
      "fail_reports (fi_events t) = fail_reports ev" by blast
  from run_sched_sound [OF run] have "fanin_reach C urls pl ev t" by (simp add: fanin_reach_def)
  with t show ?thesis by blast
qed

theorem fanin_playlist_error_unreported_witness:
  "dc_monitor (demo_ctx True None) \<and> length [''bad'', ''ok''] = 2 \<and>
   2 \<le> length (dc_profiles (demo_ctx True None)) \<and>
   dl_fetch (demo_ctx True None) 0 ([''bad'', ''ok''] ! 0) = Fetched ''bad'' None \<and>
   dl_fetch (demo_ctx True None) 1 ([''bad'', ''ok''] ! 1) = Fetched ''ok'' None \<and>
   dc_insert_err (demo_ctx True None) (dl_entry (demo_ctx True None) 0 ''bad'') = Some ''rejected'' \<and>
   dc_insert_err (demo_ctx True None) (dl_entry (demo_ctx True None) 1 ''ok'') = None \<and>
   (\<exists>s. fanin_reach (demo_ctx True None) [''bad'', ''ok''] [] [] s \<and> joined s \<and>
        fi_playlist s = [] @ [dl_entry (demo_ctx True None) 1 ''ok''] \<and>
        fail_reports (fi_events s) = fail_reports [])"
proof -
  have h: "dc_monitor (demo_ctx True None)" "length [''bad'', ''ok''] = 2"
    "2 \<le> length (dc_profiles (demo_ctx True None))"
    "dl_fetch (demo_ctx True None) 0 ([''bad'', ''ok''] ! 0) = Fetched ''bad'' None"
    "dl_fetch (demo_ctx True None) 1 ([''bad'', ''ok''] ! 1) = Fetched ''ok'' None"
    "dc_insert_err (demo_ctx True None) (dl_entry (demo_ctx True None) 0 ''bad'') = Some ''rejected''"
    "dc_insert_err (demo_ctx True None) (dl_entry (demo_ctx True None) 1 ''ok'') = None"
    by (simp_all add: demo_ctx_def dl_fetch_def dl_entry_def)
  show ?thesis using h fanin_playlist_error_unreported [OF h, of "[]" "[]"] by blast
qed

section \<open>Lemmas: a single failing download\<close>

lemma dl_exec_other:
  assumes "dl_exec C i url0 p s = Some s'" and "\<not> panicked s'" and "other_pc_ok p"
    and "pc_fetched C i url0 p" and "errv s = None"
    and "case dl_fetch C i url0 of Fetched u _ \<Rightarrow> dc_insert_err C (dl_entry C i u) = None | _ \<Rightarrow> False"
  shows "\<exists>p'. pcs s' = (pcs s)[i := p'] \<and> other_pc_ok p' \<and> errv s' = None \<and>
           gotErr s' = gotErr s \<and> fail_reports (fi_events s') = fail_reports (fi_events s)"
  using assms
  by (cases "dl_fetch C i url0"; cases p)
     (auto simp: dl_unfold pc_fetched_def split: option.splits if_splits)

lemma dl_exec_failing:
  assumes "dl_exec C k url0 p s = Some s'" and "\<not> panicked s'" and "failing_pc_ok C p"
    and "case dl_fetch C k url0 of FetchErr _ _ \<Rightarrow> True | _ \<Rightarrow> False"
    and "gotErr s \<longleftrightarrow> dc_monitor C \<and> rank p < 2"
  shows "\<exists>p'. pcs s' = (pcs s)[k := p'] \<and> failing_pc_ok C p' \<and> errv s' = errv s \<and>
           (gotErr s' \<longleftrightarrow> dc_monitor C \<and> rank p' < 2) \<and>
           fail_reports (fi_events s') + (if dc_monitor C \<and> rank p < 2 then 1 else 0) =
             fail_reports (fi_events s) + (if dc_monitor C \<and> rank p' < 2 then 1 else 0)"
  using assms
  by (cases "dl_fetch C k url0"; cases p) (auto simp: dl_unfold split: option.splits if_splits)

lemma single_failure_inv_init:
  "single_failure C urls k \<Longrightarrow> single_failure_inv C urls k ev (fanin_init (length urls) pl ev)"
  by (simp add: single_failure_inv_def single_failure_def fanin_init_def)

lemma single_failure_inv_task:
  assumes step: "dl_step C urls i s = Some s'" and inv: "fanin_inv C urls pl s"
    and sc: "single_failure C urls k" and sf: "single_failure_inv C urls k ev s"
  shows "single_failure_inv C urls k ev s'"
proof -
  from dl_step_Some [OF step] have pre: "i < length (pcs s)" "\<not> panicked s"
    and ex: "dl_exec C i (urls ! i) (pcs s ! i) s = Some s'" by auto
  from inv pre have len: "length (pcs s) = length urls" and iu: "i < length urls"
    by (auto simp: fanin_inv_def)
  from sc have ku: "k < length urls" by (simp add: single_failure_def)
  show ?thesis
  proof (cases "panicked s'")
    case True
    with dl_exec_frame [OF ex] pre(2) have "s' = s\<lparr>panicked := True\<rparr>" by auto
    with sf show ?thesis by (simp add: single_failure_inv_def)
  next
    case np: False
    show ?thesis
    proof (cases "i = k")
      case True
      from sc True have fe: "case dl_fetch C k (urls ! k) of FetchErr _ _ \<Rightarrow> True | _ \<Rightarrow> False"
        by (simp add: single_failure_def)
      from sf True have ok: "failing_pc_ok C (pcs s ! k)"
        and g: "gotErr s \<longleftrightarrow> dc_monitor C \<and> rank (pcs s ! k) < 2"
        by (auto simp: single_failure_inv_def)
      from dl_exec_failing [OF ex [unfolded True] np ok fe g] obtain p' where
        pcs': "pcs s' = (pcs s)[k := p']" and ok': "failing_pc_ok C p'" and e': "errv s' = errv s"
        and g': "gotErr s' \<longleftrightarrow> dc_monitor C \<and> rank p' < 2"
        and r': "fail_reports (fi_events s') + (if dc_monitor C \<and> rank (pcs s ! k) < 2 then 1 else 0) =
                 fail_reports (fi_events s) + (if dc_monitor C \<and> rank p' < 2 then 1 else 0)"
        by blast
      from sf have "fail_reports (fi_events s) =
          fail_reports ev + (if dc_monitor C \<and> rank (pcs s ! k) < 2 then 1 else 0)"
        by (simp add: single_failure_inv_def)
      with r' have "fail_reports (fi_events s') =
          fail_reports ev + (if dc_monitor C \<and> rank p' < 2 then 1 else 0)" by simp
      with sf pcs' ok' e' g' ku len show ?thesis
        by (auto simp: single_failure_inv_def nth_list_update)
    next
      case False
      from sc False iu have fi: "case dl_fetch C i (urls ! i) of
          Fetched u _ \<Rightarrow> dc_insert_err C (dl_entry C i u) = None | _ \<Rightarrow> False"
        by (simp add: single_failure_def)
      from sf False iu have "other_pc_ok (pcs s ! i)" and "errv s = None"
        by (auto simp: single_failure_inv_def)
      moreover from inv iu have "pc_fetched C i (urls ! i) (pcs s ! i)" by (simp add: fanin_inv_def)
      ultimately obtain p' where pcs': "pcs s' = (pcs s)[i := p']" and ok': "other_pc_ok p'"
        and rest: "errv s' = None" "gotErr s' = gotErr s"
          "fail_reports (fi_events s') = fail_reports (fi_events s)"
        using dl_exec_other [OF ex np] fi by blast
      from False have "pcs s' ! k = pcs s ! k" by (simp add: pcs')
      moreover have "\<forall>j<length urls. j \<noteq> k \<longrightarrow> other_pc_ok (pcs s' ! j)"
        using sf ok' pcs' pre(1) by (auto simp: single_failure_inv_def nth_list_update)
      ultimately show ?thesis
        using sf rest by (auto simp: single_failure_inv_def)
    qed
  qed
qed

lemma single_failure_inv_reach:
  assumes "fanin_reach C urls pl ev s" and "single_failure C urls k"
  shows "single_failure_inv C urls k ev s"
  using assms(1) unfolding fanin_reach_def
proof (induction rule: rtranclp_induct)
  case base
  from assms(2) show ?case by (rule single_failure_inv_init)
next
  case (step t u)
  from step.hyps(1) have inv: "fanin_inv C urls pl t"
    by (rule fanin_reach_inv [unfolded fanin_reach_def])
  from step.hyps(2) show ?case
  proof cases
    case (task i)
    from single_failure_inv_task [OF this inv assms(2) step.IH] show ?thesis .
  next
    case join
    with step.IH show ?thesis by (simp add: single_failure_inv_def)
  qed
qed

lemma length_accepted_single_failure:
  assumes "single_failure C urls k"
  shows "length (accepted_entries C urls) = length urls - 1"
proof -
  from assms have ku: "k < length urls" by (simp add: single_failure_def)
  have each: "length (accepted C j (urls ! j)) = (if j = k then 0 else 1)"
    if "j < length urls" for j
  proof (cases "j = k")
    case True
    with assms show ?thesis
      by (simp add: single_failure_def accepted_def split: fetch_result.splits)
  next
    case False
    with assms that have "case dl_fetch C j (urls ! j) of
        Fetched u _ \<Rightarrow> dc_insert_err C (dl_entry C j u) = None | _ \<Rightarrow> False"
      by (simp add: single_failure_def)
    with False show ?thesis by (cases "dl_fetch C j (urls ! j)") (simp_all add: accepted_def)
  qed
  have "length (accepted_entries C urls) = (\<Sum>j<length urls. length (accepted C j (urls ! j)))"
    by (simp add: accepted_entries_def length_concat_map_upt)
  also have "\<dots> = (\<Sum>j<length urls. if j = k then 0 else 1)"
    by (rule sum.cong) (simp_all add: each)
  also have "\<dots> = length urls - 1" by (rule sum_all_but_one [OF ku])
  finally show ?thesis .
qed

text \<open>
  In the scenario, every interleaving that joins leaves exactly one rendition fewer than
  there are URLs in the playlist and, with the monitor on, exactly one failure report.
\<close>

lemma fanin_single_failure:
  assumes "fanin_reach C urls pl ev s" and "joined s" and "single_failure C urls k"
  shows "\<exists>new. fi_playlist s = pl @ new \<and> length new = length urls - 1 \<and>
           fail_reports (fi_events s) = fail_reports ev + (if dc_monitor C then 1 else 0)"
proof -
  from fanin_joined_playlist [OF assms(1,2)] obtain new where
    new: "fi_playlist s = pl @ new" and m: "mset new = mset (accepted_entries C urls)" by blast
  from m have "length new = length (accepted_entries C urls)"
    by (metis size_mset)
  with length_accepted_single_failure [OF assms(3)] have len: "length new = length urls - 1" by simp
  from assms(3) have ku: "k < length urls" by (simp add: single_failure_def)
  with fanin_joined_all_done [OF assms(1,2)] have "pcs s ! k = DlDone" by blast
  with single_failure_inv_reach [OF assms(1,3)]
  have "fail_reports (fi_events s) = fail_reports ev + (if dc_monitor C then 1 else 0)"
    by (simp add: single_failure_inv_def)
  with new len show ?thesis by blast
qed

end
