(* ===== verification/FanInSlots.thy ===== *)
theory FanInSlots
  imports FanIn
begin

text \<open>
  The per-goroutine slots of the collection in \<open>processSegment\<close>
  (\<open>src/server/broadcast.go\<close> lines 131--184), over the interleaving model of
  \<open>FanIn\<close>: the counter \<open>n\<close> that the deferred functions decrement, the slots of
  \<open>segHashes\<close> that the goroutines fill under \<open>SegHashLock\<close>, and the slots of
  \<open>sess.Profiles\<close> that they index. The lemmas show that \<open>n\<close> stays within \<open>0..len(urls)\<close> and is
  never decremented at zero (so the natural-number counter of the model is Go's
  \<open>int\<close>), that after the join each hash slot holds the hash of its own rendition,
  and that a result URL without a profile makes every interleaving end in a panic.
\<close>

section \<open>Definitions\<close>

text \<open>
  The hash goroutine \<open>i\<close> records in \<open>segHashes[i]\<close> when it runs alone (lines
  146--163): the Keccak hash of the downloaded data when it was downloaded and saved,
  and the nil slice when no download was needed or it failed.
\<close>

definition seg_hash :: "dl_ctx \<Rightarrow> nat \<Rightarrow> string \<Rightarrow> bytes" where
  "seg_hash C i url0 = (case dl_fetch C i url0 of Fetched _ (Some h) \<Rightarrow> h | _ \<Rightarrow> [])"

text \<open>
  Slot invariant: a goroutine that has not yet run leaves its slot nil, and one that
  has run has written its own hash there and nobody writes it again.
\<close>

definition hash_slots_ok :: "dl_ctx \<Rightarrow> string list \<Rightarrow> fanin \<Rightarrow> bool" where
  "hash_slots_ok C urls s \<longleftrightarrow>
     (\<forall>j<length urls. segHashes s ! j = (if pcs s ! j = DlStart then [] else seg_hash C j (urls ! j)))"

text \<open>
  Goroutine \<open>i\<close> has a result URL but no profile, and its download does not fail: it
  reaches the first access to \<open>sess.Profiles[i]\<close>.
\<close>

definition extra_rendition :: "dl_ctx \<Rightarrow> string list \<Rightarrow> nat \<Rightarrow> bool" where
  "extra_rendition C urls i \<longleftrightarrow>
     length (dc_profiles C) \<le> i \<and> i < length urls \<and>
     (case dl_fetch C i (urls ! i) of FetchErr _ _ \<Rightarrow> False | _ \<Rightarrow> True)"

text \<open>
  Invariant for such a goroutine: the waiter has not passed the join, and either the
  process has panicked or goroutine \<open>i\<close> has not got past the playlist call.
\<close>

definition extra_inv :: "nat \<Rightarrow> fanin \<Rightarrow> bool" where
  "extra_inv i s \<longleftrightarrow> \<not> joined s \<and> (panicked s \<or> 6 \<le> rank (pcs s ! i))"

section \<open>Lemmas: the counter\<close>

lemma pending_le: "pending ps \<le> length ps"
proof -
  have "pending ps \<le> (\<Sum>j<length ps. 1)"
    unfolding pending_def by (rule sum_mono) simp
  then show ?thesis by simp
qed

lemma pending_pos: "j < length ps \<Longrightarrow> ps ! j \<noteq> DlDone \<Longrightarrow> 0 < pending ps"
  using pending_zero by blast

lemma fanin_reach_lengths:
  assumes "fanin_reach C urls pl ev s"
  shows "length (pcs s) = length urls" and "length (segHashes s) = length urls"
    and "cnt s = pending (pcs s)"
  using fanin_reach_inv [OF assms] by (simp_all add: fanin_inv_def)

section \<open>Lemmas: the hash slots\<close>

lemma dl_exec_segHashes:
  assumes "dl_exec C i url0 p s = Some s'" and "\<not> panicked s'"
  shows "segHashes s' =
           (if p = DlStart then (case dl_fetch C i url0 of
                                   Fetched _ (Some h) \<Rightarrow> (segHashes s)[i := h]
                                 | _ \<Rightarrow> segHashes s)
            else segHashes s)"
  using assms
  by (cases p) (auto simp: dl_unfold split: fetch_result.splits option.splits if_splits)

lemma rank_less_not_start: "rank p' < rank p \<Longrightarrow> p' \<noteq> DlStart"
  by (cases p) auto

lemma hash_slots_init: "hash_slots_ok C urls (fanin_init (length urls) pl ev)"
  by (simp add: hash_slots_ok_def fanin_init_def)

lemma hash_slots_task:
  assumes step: "dl_step C urls i s = Some s'" and inv: "fanin_inv C urls pl s"
    and ok: "hash_slots_ok C urls s"
  shows "hash_slots_ok C urls s'"
proof (cases "panicked s'")
  case True
  from dl_step_Some [OF step] have "\<not> panicked s"
    and ex: "dl_exec C i (urls ! i) (pcs s ! i) s = Some s'" by auto
  with dl_exec_frame [OF ex] True have "s' = s\<lparr>panicked := True\<rparr>" by auto
  with ok show ?thesis by (simp add: hash_slots_ok_def)
next
  case False
  let ?p = "pcs s ! i"
  from dl_step_Some [OF step] have iu: "i < length (pcs s)"
    and ex: "dl_exec C i (urls ! i) ?p s = Some s'" by auto
  from inv iu have len: "length (pcs s) = length urls" "length (segHashes s) = length urls"
    by (auto simp: fanin_inv_def)
  from dl_exec_frame [OF ex] False obtain p' where
    pcs': "pcs s' = (pcs s)[i := p']" and r: "rank p' < rank ?p" by auto
  have p': "p' \<noteq> DlStart" by (rule rank_less_not_start [OF r])
  note hs = dl_exec_segHashes [OF ex False]
  show ?thesis unfolding hash_slots_ok_def
  proof (intro allI impI)
    fix j assume j: "j < length urls"
    show "segHashes s' ! j = (if pcs s' ! j = DlStart then [] else seg_hash C j (urls ! j))"
    proof (cases "j = i")
      case True
      with ok j have old: "segHashes s ! i = (if ?p = DlStart then [] else seg_hash C i (urls ! i))"
        by (simp add: hash_slots_ok_def)
      from True iu len pcs' p' hs old show ?thesis
        by (auto simp: seg_hash_def split: fetch_result.splits option.splits)
    next
      case False
      with ok j len pcs' hs show ?thesis
        by (auto simp: hash_slots_ok_def split: fetch_result.splits option.splits)
    qed
  qed
qed

lemma hash_slots_reach:
  assumes "fanin_reach C urls pl ev s"
  shows "hash_slots_ok C urls s"
  using assms unfolding fanin_reach_def
proof (induction rule: rtranclp_induct)
  case base
  then show ?case by (rule hash_slots_init)
next
  case (step t u)
  from step.hyps(1) have inv: "fanin_inv C urls pl t"
    by (rule fanin_reach_inv [unfolded fanin_reach_def])
  from step.hyps(2) show ?case
  proof cases
    case (task i)
    then show ?thesis by (rule hash_slots_task [OF _ inv step.IH])
  next
    case join
    with step.IH show ?thesis by (simp add: hash_slots_ok_def)
  qed
qed

section \<open>Lemmas: a result URL without a profile\<close>

lemma dl_exec_extra:
  assumes "dl_exec C i url0 p s = Some s'" and "length (dc_profiles C) \<le> i"
    and "case dl_fetch C i url0 of FetchErr _ _ \<Rightarrow> False | _ \<Rightarrow> True"
    and "6 \<le> rank p" and "i < length (pcs s)"
  shows "panicked s' \<or> 6 \<le> rank (pcs s' ! i)"
  using assms
  by (cases p) (auto simp: dl_unfold split: fetch_result.splits option.splits if_splits)

lemma extra_inv_reach:
  assumes "extra_rendition C urls i" and "fanin_reach C urls pl ev s"
  shows "extra_inv i s"
  using assms(2) unfolding fanin_reach_def
proof (induction rule: rtranclp_induct)
  case base
  from assms(1) show ?case
    by (simp add: extra_inv_def extra_rendition_def fanin_init_def)
next
  case (step t u)
  from step.hyps(1) have inv: "fanin_inv C urls pl t"
    by (rule fanin_reach_inv [unfolded fanin_reach_def])
  from assms(1) have iu: "i < length urls" and prof: "length (dc_profiles C) \<le> i"
    and ok: "case dl_fetch C i (urls ! i) of FetchErr _ _ \<Rightarrow> False | _ \<Rightarrow> True"
    by (simp_all add: extra_rendition_def)
  from inv iu have ip: "i < length (pcs t)" by (simp add: fanin_inv_def)
  from step.hyps(2) show ?case
  proof cases
    case (task j)
    from dl_step_Some [OF task] have nt: "\<not> panicked t"
      and ex: "dl_exec C j (urls ! j) (pcs t ! j) t = Some u" by auto
    with step.IH have r: "6 \<le> rank (pcs t ! i)" by (simp add: extra_inv_def)
    show ?thesis
    proof (cases "j = i")
      case True
      with dl_exec_extra [OF ex [unfolded True] prof ok r ip] dl_exec_frame [OF ex] step.IH
      show ?thesis by (auto simp: extra_inv_def)
    next
      case False
      with dl_exec_frame [OF ex] step.IH show ?thesis by (auto simp: extra_inv_def)
    qed
  next
    case join
    with inv have "pending (pcs t) = 0" by (simp add: fanin_inv_def)
    with pending_zero ip have "pcs t ! i = DlDone" by blast
    with join step.IH show ?thesis by (simp add: extra_inv_def)
  qed
qed

section \<open>Properties\<close>

text \<open>
  C13: the counter \<open>n\<close> stays between zero and the number of result URLs, it is zero
  exactly when every goroutine has finished, and a goroutine about to run its deferred
  \<open>n--\<close> always finds it positive: the decrement never goes below zero, so the
  truncated subtraction of the model never applies and \<open>n\<close> behaves as Go's \<open>int\<close>.
\<close>

theorem fanin_counter_bounds:
  assumes "fanin_reach C urls pl ev s"
  shows "cnt s \<le> length urls \<and>
         (cnt s = 0 \<longleftrightarrow> (\<forall>j<length urls. pcs s ! j = DlDone)) \<and>
         (\<forall>j<length urls. pcs s ! j = DlDefer \<longrightarrow> 0 < cnt s)"
proof -
  note l = fanin_reach_lengths [OF assms]
  have "cnt s \<le> length urls" using pending_le [of "pcs s"] l by simp
  moreover have "cnt s = 0 \<longleftrightarrow> (\<forall>j<length urls. pcs s ! j = DlDone)"
  proof
    assume "cnt s = 0"
    then show "\<forall>j<length urls. pcs s ! j = DlDone" using pending_zero [of "pcs s"] l by auto
  next
    assume "\<forall>j<length urls. pcs s ! j = DlDone"
    then show "cnt s = 0" using l by (auto simp: pending_def intro: sum.neutral)
  qed
  moreover have "\<forall>j<length urls. pcs s ! j = DlDefer \<longrightarrow> 0 < cnt s"
    using pending_pos [of _ "pcs s"] l by auto
  ultimately show ?thesis by blast
qed

theorem fanin_counter_bounds_witness:
  "\<exists>t. fanin_reach (demo_ctx False None) [''a'', ''b''] [] [] t \<and> pcs t ! 0 = DlDefer \<and>
      0 < cnt t \<and> cnt t \<le> 2"
proof -
  let ?C = "demo_ctx False None" and ?ks = "[Some 0, Some 0, Some 0, Some 0, Some 0]"
  let ?t = "the (run_sched ?C [''a'', ''b''] ?ks (fanin_init (length [''a'', ''b'']) [] []))"
  have run: "run_sched ?C [''a'', ''b''] ?ks (fanin_init (length [''a'', ''b'']) [] []) = Some ?t"
    by (simp add: demo_ctx_def fanin_init_def sched_step_def dl_step_def set_pc_def
        dl_fetch_def dl_entry_def)
  have reach: "fanin_reach ?C [''a'', ''b''] [] [] ?t"
    unfolding fanin_reach_def by (rule run_sched_sound [OF run])
  have d: "pcs ?t ! 0 = DlDefer"
    by (simp add: demo_ctx_def fanin_init_def sched_step_def dl_step_def set_pc_def
        dl_fetch_def dl_entry_def)
  from fanin_counter_bounds [OF reach] d reach show ?thesis by auto
qed

text \<open>
  C15: after the join each slot of \<open>segHashes\<close> holds the hash its own goroutine
  computed (the Keccak hash of the rendition it downloaded and saved), or nil when that
  goroutine downloaded nothing or failed, whatever the interleaving.
\<close>

theorem fanin_segHashes_result:
  assumes "fanin_reach C urls pl ev s" and "joined s"
  shows "segHashes s = map (\<lambda>j. seg_hash C j (urls ! j)) [0..<length urls]"
proof (rule nth_equalityI)
  note l = fanin_reach_lengths [OF assms(1)]
  show "length (segHashes s) = length (map (\<lambda>j. seg_hash C j (urls ! j)) [0..<length urls])"
    using l by simp
  fix j assume "j < length (segHashes s)"
  with l have j: "j < length urls" by simp
  with fanin_joined_all_done [OF assms] have "pcs s ! j = DlDone" by blast
  with hash_slots_reach [OF assms(1)] j
  show "segHashes s ! j = map (\<lambda>j. seg_hash C j (urls ! j)) [0..<length urls] ! j"
    by (simp add: hash_slots_ok_def)
qed

theorem fanin_segHashes_result_witness:
  "\<exists>t. fanin_reach (demo_ctx True (Some demo_os)) [''a'', ''x''] [] [] t \<and> joined t \<and>
      segHashes t = [[3, 2, 1], []]"
proof -
  let ?C = "demo_ctx True (Some demo_os)"
  let ?ks = "[Some 0, Some 1, Some 0, Some 1, Some 0, Some 1, Some 0, Some 1, Some 0, Some 0, None]"
  let ?t = "the (run_sched ?C [''a'', ''x''] ?ks (fanin_init (length [''a'', ''x'']) [] []))"
  have run: "run_sched ?C [''a'', ''x''] ?ks (fanin_init (length [''a'', ''x'']) [] []) = Some ?t"
    by (simp add: demo_ctx_def demo_os_def fanin_init_def sched_step_def dl_step_def set_pc_def
        dl_fetch_def dl_entry_def)
  have reach: "fanin_reach ?C [''a'', ''x''] [] [] ?t"
    unfolding fanin_reach_def by (rule run_sched_sound [OF run])
  have j: "joined ?t"
    by (simp add: demo_ctx_def demo_os_def fanin_init_def sched_step_def dl_step_def set_pc_def
        dl_fetch_def dl_entry_def)
  have h: "map (\<lambda>j. seg_hash ?C j ([''a'', ''x''] ! j)) [0..<length [''a'', ''x'']] = [[3, 2, 1], []]"
    by (simp add: seg_hash_def dl_fetch_def demo_ctx_def demo_os_def upt_rec)
  from fanin_segHashes_result [OF reach j] h reach j show ?thesis by auto
qed

text \<open>
  C14: when the orchestrator returns a result URL beyond the negotiated profiles and its
  download does not fail, the goroutine's access to \<open>sess.Profiles[i]\<close> panics:
  no interleaving passes the join, and every interleaving that cannot move further has
  panicked, which ends the process.
\<close>

theorem extra_rendition_panics:
  assumes "extra_rendition C urls i" and "fanin_reach C urls pl ev s"
  shows "\<not> joined s \<and> (\<not> (\<exists>s'. fanin_step C urls s s') \<longrightarrow> panicked s)"
  using extra_inv_reach [OF assms] fanin_progress [OF fanin_reach_inv [OF assms(2)]]
  by (auto simp: extra_inv_def)

theorem extra_rendition_panics_witness:
  "\<exists>t. extra_rendition (demo_ctx False None) [''a'', ''b'', ''c''] 2 \<and>
      fanin_reach (demo_ctx False None) [''a'', ''b'', ''c''] [] [] t \<and>
      \<not> (\<exists>t'. fanin_step (demo_ctx False None) [''a'', ''b'', ''c''] t t') \<and>
      \<not> joined t \<and> panicked t"
proof -
  let ?C = "demo_ctx False None" and ?u = "[''a'', ''b'', ''c'']" and ?ks = "[Some 2, Some 2, Some 2]"
  let ?t = "the (run_sched ?C ?u ?ks (fanin_init (length ?u) [] []))"
  have e: "extra_rendition ?C ?u 2"
    by (simp add: extra_rendition_def demo_ctx_def dl_fetch_def)
  have run: "run_sched ?C ?u ?ks (fanin_init (length ?u) [] []) = Some ?t"
    by (simp add: demo_ctx_def fanin_init_def sched_step_def dl_step_def set_pc_def
        dl_fetch_def dl_entry_def)
  have reach: "fanin_reach ?C ?u [] [] ?t"
    unfolding fanin_reach_def by (rule run_sched_sound [OF run])
  have stuck: "\<not> (\<exists>t'. fanin_step ?C ?u ?t t')"
    by (auto elim!: fanin_step.cases simp: demo_ctx_def fanin_init_def sched_step_def dl_step_def
        set_pc_def dl_fetch_def dl_entry_def)
  from extra_rendition_panics [OF e reach] e reach stuck show ?thesis by blast
qed

end
