(* ===== verification/Segment.thy ===== *)
theory Segment
  imports FanIn FailurePolicy
begin

text \<open>
  \<open>processSegment\<close> (\<open>src/server/broadcast.go\<close> lines 53--193) in three parts: the
  capture path that runs synchronously for each segment (save to the broadcaster's
  storage, insert the source rendition, telemetry), the goroutine that re-uploads to
  the orchestrator's storage and submits the segment (with the stop decision on a
  submission error), and the collection of renditions, which is the interleaving
  model of \<open>FanIn\<close>. \<open>segment_run\<close> relates a state before a segment to each state
  the segment can leave after its goroutine has joined (or stopped early), the segment
  being processed alone. The lemmas give the early exits of the source, when the stream is
  closed, and the order of source renditions along the capture path.
\<close>

section \<open>Values and collaborators\<close>

record HLSSegment =
  SeqNo :: nat
  Name :: string
  Data :: bytes
  Duration :: float64

text \<open>The parts of \<open>rtmpConnection\<close> that \<open>processSegment\<close> reads.\<close>

record rtmpConnection =
  nonce :: nat
  stream_id :: string
  sess :: "BroadcastSession option"
  pl :: PlaylistManager
  profile :: VideoProfile

text \<open>
  The results of the collaborators: \<open>rtmpManifestID\<close>, the error of
  \<open>cpl.InsertHLSSegment\<close>, \<open>drivers.IsOwnExternal\<close>, \<open>drivers.GetSegmentData\<close>,
  \<open>crypto.Keccak256\<close>, and \<open>SubmitSegment\<close> (an error or the rendition URLs of the
  result), and the monitor flag.
\<close>

record bcast_env =
  be_monitor :: bool
  be_manifest_of :: "string \<Rightarrow> string"
  be_insert_err :: "pl_entry \<Rightarrow> string option"
  be_own_external :: "string \<Rightarrow> bool"
  be_get_data :: "string \<Rightarrow> string + bytes"
  be_keccak :: "bytes \<Rightarrow> bytes"
  be_submit :: "BroadcastSession \<Rightarrow> HLSSegment \<Rightarrow> nat \<Rightarrow> submit_error + string list"

text \<open>The state shared by all segments of a stream: the playlist, the log, the input stream.\<close>

record bcast_state =
  bs_playlist :: "pl_entry list"
  bs_events :: "event list"
  bs_closed :: bool

definition log_event :: "bcast_env \<Rightarrow> event \<Rightarrow> bcast_state \<Rightarrow> bcast_state" where
  "log_event E ev st = (if be_monitor E then st\<lparr>bs_events := bs_events st @ [ev]\<rparr> else st)"

definition insert_hls :: "bcast_env \<Rightarrow> pl_entry \<Rightarrow> bcast_state \<Rightarrow> string option \<times> bcast_state" where
  "insert_hls E ent st =
     (case be_insert_err E ent of
        None \<Rightarrow> (None, st\<lparr>bs_playlist := bs_playlist st @ [ent]\<rparr>)
      | Some e \<Rightarrow> (Some e, st))"

section \<open>The capture path\<close>

datatype capture_result =
    CaptureUploadFailed
  | CaptureLocalOnly
  | CaptureDispatched BroadcastSession string

text \<open>
  Lines 55--93: the segment's name is cleared, the data saved under
  \<open>profile/seqNo.ts\<close>; a save error is logged and ends the segment; otherwise the
  name carries the URI when the storage is external, the source rendition is inserted
  (an insert error is logged but does not end the segment), and the goroutine is
  started when there is a session.
\<close>

definition processSegment_capture ::
  "bcast_env \<Rightarrow> rtmpConnection \<Rightarrow> HLSSegment \<Rightarrow> bcast_state \<Rightarrow>
   capture_result \<times> HLSSegment \<times> bcast_state" where
  "processSegment_capture E cxn seg st =
     (let n = nonce cxn; cpl = pl cxn; mid = be_manifest_of E (stream_id cxn); vProfile = profile cxn;
          st1 = log_event E (SegmentEmerged n (SeqNo seg)) st;
          seg1 = seg\<lparr>Name := ''''\<rparr>;
          name = seg_name (profile_name vProfile) (SeqNo seg)
      in case os_save (pl_os cpl) name (Data seg) of
           Inl e \<Rightarrow> (CaptureUploadFailed, seg1, log_event E (SegmentUploadFailed n (SeqNo seg) e) st1)
         | Inr uri \<Rightarrow>
             (let seg2 = (if os_external (pl_os cpl) then seg1\<lparr>Name := uri\<rparr> else seg1);
                  (r, st2) = insert_hls E (vProfile, SeqNo seg, uri, Duration seg) st1;
                  st3 = log_event E (SourceSegmentAppeared n (SeqNo seg) mid (profile_name vProfile)) st2;
                  st4 = (case r of None \<Rightarrow> st3 | Some e \<Rightarrow> log_event E (SegmentUploadFailed n (SeqNo seg) e) st3)
              in (case sess cxn of None \<Rightarrow> CaptureLocalOnly | Some s \<Rightarrow> CaptureDispatched s name,
                  seg2, st4)))"

section \<open>The submission goroutine\<close>

datatype submit_result = OrchUploadFailed | SubmitFailed bool | SubmitOK "string list"

text \<open>
  Lines 112--119: submit; on an error, close the input stream when the classifier says
  the session must stop (the source calls it \<open>shouldStopStream\<close>), and end the
  goroutine either way.
\<close>

definition submit_segment ::
  "bcast_env \<Rightarrow> nat \<Rightarrow> BroadcastSession \<Rightarrow> HLSSegment \<Rightarrow> bcast_state \<Rightarrow>
   submit_result \<times> HLSSegment \<times> bcast_state" where
  "submit_segment E n s seg st =
     (case be_submit E s seg n of
        Inl err \<Rightarrow>
          (if shouldStopSession err then (SubmitFailed True, seg, st\<lparr>bs_closed := True\<rparr>)
           else (SubmitFailed False, seg, st))
      | Inr urls \<Rightarrow> (SubmitOK urls, seg, st))"

text \<open>Lines 95--107: the optional re-upload into the orchestrator's storage first.\<close>

definition processSegment_submit ::
  "bcast_env \<Rightarrow> nat \<Rightarrow> BroadcastSession \<Rightarrow> string \<Rightarrow> HLSSegment \<Rightarrow> bcast_state \<Rightarrow>
   submit_result \<times> HLSSegment \<times> bcast_state" where
  "processSegment_submit E n s name seg st =
     (case OrchestratorOS s of
        None \<Rightarrow> submit_segment E n s seg st
      | Some ios \<Rightarrow>
          (case os_save ios name (Data seg) of
             Inl e \<Rightarrow> (OrchUploadFailed, seg, log_event E (SegmentUploadFailed n (SeqNo seg) e) st)
           | Inr uri \<Rightarrow> submit_segment E n s (seg\<lparr>Name := uri\<rparr>) st))"

text \<open>What the download goroutines of this segment read (lines 121--174).\<close>

definition segment_dl_ctx :: "bcast_env \<Rightarrow> nat \<Rightarrow> BroadcastSession \<Rightarrow> HLSSegment \<Rightarrow> dl_ctx" where
  "segment_dl_ctx E n s seg =
     \<lparr>dc_monitor = be_monitor E, dc_nonce = n, dc_seq = SeqNo seg, dc_duration = Duration seg,
      dc_profiles = Profiles s, dc_bos = BroadcasterOS s, dc_own_external = be_own_external E,
      dc_get_data = be_get_data E, dc_keccak = be_keccak E, dc_insert_err = be_insert_err E\<rparr>"

section \<open>One segment, from capture to join\<close>

datatype seg_outcome = SegDropped | SegLocalOnly | SegNotTranscoded bool | SegCollected "string list"

inductive segment_run ::
  "bcast_env \<Rightarrow> rtmpConnection \<Rightarrow> HLSSegment \<Rightarrow> bcast_state \<Rightarrow> seg_outcome \<Rightarrow> bcast_state \<Rightarrow> bool" where
  dropped: "processSegment_capture E cxn seg st = (CaptureUploadFailed, seg1, st1) \<Longrightarrow>
     segment_run E cxn seg st SegDropped st1"
| local_only: "processSegment_capture E cxn seg st = (CaptureLocalOnly, seg1, st1) \<Longrightarrow>
     segment_run E cxn seg st SegLocalOnly st1"
| orch_upload_failed: "processSegment_capture E cxn seg st = (CaptureDispatched s name, seg1, st1) \<Longrightarrow>
     processSegment_submit E (nonce cxn) s name seg1 st1 = (OrchUploadFailed, seg2, st2) \<Longrightarrow>
     segment_run E cxn seg st (SegNotTranscoded False) st2"
| submit_failed: "processSegment_capture E cxn seg st = (CaptureDispatched s name, seg1, st1) \<Longrightarrow>
     processSegment_submit E (nonce cxn) s name seg1 st1 = (SubmitFailed stop, seg2, st2) \<Longrightarrow>
     segment_run E cxn seg st (SegNotTranscoded stop) st2"
| collected: "processSegment_capture E cxn seg st = (CaptureDispatched s name, seg1, st1) \<Longrightarrow>
     processSegment_submit E (nonce cxn) s name seg1 st1 = (SubmitOK urls, seg2, st2) \<Longrightarrow>
     fanin_reach (segment_dl_ctx E (nonce cxn) s seg2) urls (bs_playlist st2) (bs_events st2) f \<Longrightarrow>
     joined f \<Longrightarrow>
     segment_run E cxn seg st (SegCollected urls) (st2\<lparr>bs_playlist := fi_playlist f, bs_events := fi_events f\<rparr>)"

section \<open>The capture path over a sequence of segments\<close>

text \<open>
  Segments are captured one after another on the capture path of one connection; the
  source rendition of each is inserted before the next segment is captured.
\<close>

fun capture_all :: "bcast_env \<Rightarrow> rtmpConnection \<Rightarrow> HLSSegment list \<Rightarrow> bcast_state \<Rightarrow> bcast_state" where
  "capture_all E cxn [] st = st"
| "capture_all E cxn (seg # segs) st =
     capture_all E cxn segs (snd (snd (processSegment_capture E cxn seg st)))"

text \<open>The source rendition a captured segment adds to the playlist, if any.\<close>

definition source_entry :: "bcast_env \<Rightarrow> rtmpConnection \<Rightarrow> HLSSegment \<Rightarrow> pl_entry list" where
  "source_entry E cxn seg =
     (case os_save (pl_os (pl cxn)) (seg_name (profile_name (profile cxn)) (SeqNo seg)) (Data seg) of
        Inl _ \<Rightarrow> []
      | Inr uri \<Rightarrow>
          (let ent = (profile cxn, SeqNo seg, uri, Duration seg)
           in if be_insert_err E ent = None then [ent] else []))"

text \<open>
  The telemetry events the capture path of a segment logs (lines 62--90), in order: the
  segment emerged, then either the failed save, or the source appeared followed by the
  failed insert, if the playlist rejected it; nothing with the monitor disabled.
\<close>

definition capture_events :: "bcast_env \<Rightarrow> rtmpConnection \<Rightarrow> HLSSegment \<Rightarrow> event list" where
  "capture_events E cxn seg =
     (if \<not> be_monitor E then []
      else SegmentEmerged (nonce cxn) (SeqNo seg) #
        (case os_save (pl_os (pl cxn)) (seg_name (profile_name (profile cxn)) (SeqNo seg)) (Data seg) of
           Inl e \<Rightarrow> [SegmentUploadFailed (nonce cxn) (SeqNo seg) e]
         | Inr uri \<Rightarrow>
             SourceSegmentAppeared (nonce cxn) (SeqNo seg) (be_manifest_of E (stream_id cxn))
               (profile_name (profile cxn)) #
             (case be_insert_err E (profile cxn, SeqNo seg, uri, Duration seg) of
                None \<Rightarrow> []
              | Some e \<Rightarrow> [SegmentUploadFailed (nonce cxn) (SeqNo seg) e])))"

text \<open>
  Concrete values for the witnesses: a broadcaster storage that accepts every upload
  (\<open>demo_os\<close>) or fails every one, a session with the two profiles of
  \<open>demo_ctx\<close> and no orchestrator storage, and a submission with a given result.
\<close>

definition failing_os :: os_session where
  "failing_os = \<lparr>os_external = False, os_save = (\<lambda>name data. Inl ''disk full'')\<rparr>"

definition demo_session :: BroadcastSession where
  "demo_session =
     \<lparr>Broadcaster = \<lparr>node_id = ''b'', OrchestratorPool = None\<rparr>, ManifestID = ''m'',
      Profiles = dc_profiles (demo_ctx True None),
      OrchestratorInfo = \<lparr>transcoder = ''o'', storage = []\<rparr>,
      OrchestratorOS = None, BroadcasterOS = Some demo_os\<rparr>"

definition demo_env :: "submit_error + string list \<Rightarrow> bcast_env" where
  "demo_env res =
     \<lparr>be_monitor = True, be_manifest_of = (\<lambda>sid. ''m''),
      be_insert_err = dc_insert_err (demo_ctx True None), be_own_external = (\<lambda>u. False),
      be_get_data = dc_get_data (demo_ctx True None), be_keccak = rev,
      be_submit = (\<lambda>s seg n. res)\<rparr>"

definition demo_cxn :: "os_session \<Rightarrow> BroadcastSession option \<Rightarrow> rtmpConnection" where
  "demo_cxn os s =
     \<lparr>nonce = 7, stream_id = ''s'', sess = s, pl = \<lparr>pl_manifest = ''m'', pl_os = os\<rparr>,
      profile = \<lparr>profile_name = ''source''\<rparr>\<rparr>"

definition demo_seg :: HLSSegment where
  "demo_seg = \<lparr>SeqNo = 3, Name = ''seg'', Data = [1, 2, 3], Duration = 2\<rparr>"

definition demo_st :: bcast_state where
  "demo_st = \<lparr>bs_playlist = [], bs_events = [], bs_closed = False\<rparr>"

lemmas demo_defs = failing_os_def demo_os_def demo_session_def demo_env_def demo_cxn_def
  demo_seg_def demo_st_def demo_ctx_def

section \<open>Lemmas\<close>

lemma log_event_fields [simp]:
  "bs_playlist (log_event E ev st) = bs_playlist st"
  "bs_closed (log_event E ev st) = bs_closed st"
  by (simp_all add: log_event_def)

lemma capture_cases:
  assumes "processSegment_capture E cxn seg st = (r, seg1, st1)"
  shows "SeqNo seg1 = SeqNo seg \<and> Duration seg1 = Duration seg \<and> Data seg1 = Data seg \<and>
     bs_playlist st1 = bs_playlist st @ source_entry E cxn seg \<and>
     bs_closed st1 = bs_closed st \<and>
     fail_reports (bs_events st1) = fail_reports (bs_events st) \<and>
     (\<forall>s name. r = CaptureDispatched s name \<longrightarrow> sess cxn = Some s \<and>
        name = seg_name (profile_name (profile cxn)) (SeqNo seg))"
  using assms
  by (auto simp: processSegment_capture_def source_entry_def insert_hls_def log_event_def Let_def
           fail_reports_def
           split: sum.splits option.splits if_splits prod.splits)

lemma submit_cases:
  assumes "processSegment_submit E n s name seg st = (r, seg2, st2)"
  shows "SeqNo seg2 = SeqNo seg \<and> Duration seg2 = Duration seg \<and> Data seg2 = Data seg \<and>
     bs_playlist st2 = bs_playlist st \<and>
     fail_reports (bs_events st2) = fail_reports (bs_events st) \<and>
     (bs_closed st2 \<longleftrightarrow> bs_closed st \<or> r = SubmitFailed True) \<and>
     (r = SubmitFailed True \<longrightarrow> (\<exists>sg err. be_submit E s sg n = Inl err \<and> shouldStopSession err))"
  using assms
  by (auto simp: processSegment_submit_def submit_segment_def log_event_def
           split: sum.splits option.splits if_splits)

lemma capture_events_log:
  assumes "processSegment_capture E cxn seg st = (r, seg1, st1)"
  shows "bs_events st1 = bs_events st @ capture_events E cxn seg"
  using assms
  by (auto simp: processSegment_capture_def capture_events_def insert_hls_def log_event_def Let_def
           split: sum.splits option.splits prod.splits)

lemma submit_events_append:
  assumes "processSegment_submit E n s name seg st = (r, seg2, st2)"
  shows "\<exists>e. bs_events st2 = bs_events st @ e"
  using assms
  by (auto simp: processSegment_submit_def submit_segment_def log_event_def
           split: sum.splits option.splits if_splits)

lemma capture_events_cong:
  "SeqNo seg' = SeqNo seg \<Longrightarrow> Duration seg' = Duration seg \<Longrightarrow> Data seg' = Data seg \<Longrightarrow>
     capture_events E cxn seg' = capture_events E cxn seg"
  by (simp add: capture_events_def split: sum.split option.split)

lemma source_entry_cong:
  "SeqNo seg' = SeqNo seg \<Longrightarrow> Duration seg' = Duration seg \<Longrightarrow> Data seg' = Data seg \<Longrightarrow>
     source_entry E cxn seg' = source_entry E cxn seg"
  by (simp add: source_entry_def Let_def split: sum.split)

lemma segment_dl_ctx_cong:
  "SeqNo seg' = SeqNo seg \<Longrightarrow> Duration seg' = Duration seg \<Longrightarrow>
     segment_dl_ctx E n s seg' = segment_dl_ctx E n s seg"
  by (simp add: segment_dl_ctx_def)

text \<open>
  A segment whose submission succeeded with no more URLs than profiles reaches the
  join: the collected outcome exists for it.
\<close>

lemma segment_collected_exists:
  assumes "processSegment_capture E cxn seg st = (CaptureDispatched s name, seg1, st1)"
    and "processSegment_submit E (nonce cxn) s name seg1 st1 = (SubmitOK urls, seg2, st2)"
    and "length urls \<le> length (Profiles s)"
  shows "\<exists>st'. segment_run E cxn seg st (SegCollected urls) st'"
proof -
  let ?C = "segment_dl_ctx E (nonce cxn) s seg2"
  have r0: "fanin_reach ?C urls (bs_playlist st2) (bs_events st2) (fanin_init (length urls) (bs_playlist st2) (bs_events st2))"
    by (simp add: fanin_reach_def)
  have "length urls \<le> length (dc_profiles ?C)" using assms(3) by (simp add: segment_dl_ctx_def)
  from fanin_join_reachable [OF r0 this] obtain f where
    "(fanin_step ?C urls)\<^sup>*\<^sup>* (fanin_init (length urls) (bs_playlist st2) (bs_events st2)) f" "joined f"
    by blast
  then show ?thesis
    using segment_run.collected [OF assms(1,2)] by (auto simp: fanin_reach_def)
qed

text \<open>
  Along the capture path the source renditions enter the playlist in capture order:
  after capturing a sequence of segments the playlist is extended by the source entry
  of each segment whose save and insert succeeded, in the order of the segments.
\<close>

lemma capture_source_order:
  "bs_playlist (capture_all E cxn segs st) = bs_playlist st @ concat (map (source_entry E cxn) segs)"
proof (induction segs arbitrary: st)
  case Nil
  then show ?case by simp
next
  case (Cons seg segs)
  obtain r seg1 st1 where c: "processSegment_capture E cxn seg st = (r, seg1, st1)"
    by (cases "processSegment_capture E cxn seg st") auto
  from capture_cases [OF c] Cons.IH [of st1] c show ?case by simp
qed

text \<open>
  C21: a failed save to the broadcaster's own storage drops the segment: nothing is
  inserted, nothing is submitted, and the stream stays open for the next segment.
\<close>

theorem capture_upload_failed:
  assumes "os_save (pl_os (pl cxn)) (seg_name (profile_name (profile cxn)) (SeqNo seg)) (Data seg) = Inl e"
    and "segment_run E cxn seg st out st'"
  shows "out = SegDropped \<and> bs_playlist st' = bs_playlist st \<and> bs_closed st' = bs_closed st"
proof -
  have c: "fst (processSegment_capture E cxn seg st) = CaptureUploadFailed"
    and src: "source_entry E cxn seg = []"
    using assms(1) by (simp_all add: processSegment_capture_def source_entry_def Let_def)
  from assms(2) c src show ?thesis
    by cases (auto dest!: capture_cases)
qed

theorem capture_upload_failed_witness:
  "\<exists>st'. segment_run (demo_env (Inr [])) (demo_cxn failing_os None) demo_seg demo_st SegDropped st' \<and>
     bs_playlist st' = [] \<and> \<not> bs_closed st'"
proof -
  let ?E = "demo_env (Inr [])" and ?cxn = "demo_cxn failing_os None"
  have h: "os_save (pl_os (pl ?cxn)) (seg_name (profile_name (profile ?cxn)) (SeqNo demo_seg))
             (Data demo_seg) = Inl ''disk full''"
    by (simp add: demo_defs)
  obtain r seg1 st1 where eq: "processSegment_capture ?E ?cxn demo_seg demo_st = (r, seg1, st1)"
    by (cases "processSegment_capture ?E ?cxn demo_seg demo_st") auto
  have "r = CaptureUploadFailed"
    using eq h by (simp add: processSegment_capture_def Let_def)
  with eq have run: "segment_run ?E ?cxn demo_seg demo_st SegDropped st1"
    by (simp add: segment_run.dropped)
  show ?thesis
    using run capture_upload_failed [OF h run] by (auto simp: demo_st_def)
qed

text \<open>
  C6: a segment closes the input stream exactly when its submission failed with an error
  the classifier deems session-ending; every other outcome leaves the stream as it was.
\<close>

theorem segment_closes_stream:
  assumes "segment_run E cxn seg st out st'"
  shows "(bs_closed st' \<longleftrightarrow> bs_closed st \<or> out = SegNotTranscoded True) \<and>
         (out = SegNotTranscoded True \<longrightarrow>
            (\<exists>s sg err. sess cxn = Some s \<and> be_submit E s sg (nonce cxn) = Inl err \<and> shouldStopSession err))"
  using assms by cases (auto dest!: capture_cases submit_cases)

theorem segment_closes_stream_witness:
  "\<exists>st'. segment_run (demo_env (Inl (ErrorString ''dial tcp 127.0.0.1:8936: connection refused'')))
           (demo_cxn demo_os (Some demo_session)) demo_seg demo_st (SegNotTranscoded True) st' \<and>
     bs_closed st'"
proof -
  let ?E = "demo_env (Inl (ErrorString ''dial tcp 127.0.0.1:8936: connection refused''))"
  let ?cxn = "demo_cxn demo_os (Some demo_session)"
  obtain r seg1 st1 where eq: "processSegment_capture ?E ?cxn demo_seg demo_st = (r, seg1, st1)"
    by (cases "processSegment_capture ?E ?cxn demo_seg demo_st") auto
  have r: "r = CaptureDispatched demo_session (seg_name ''source'' 3)"
    using eq by (auto simp: processSegment_capture_def insert_hls_def Let_def demo_defs
                      split: option.splits)
  have sub: "processSegment_submit ?E (nonce ?cxn) demo_session (seg_name ''source'' 3) seg1 st1 =
               (SubmitFailed True, seg1, st1\<lparr>bs_closed := True\<rparr>)"
    by (simp add: processSegment_submit_def submit_segment_def demo_session_def demo_env_def
        session_error_patterns_def sublist_code)
  have run: "segment_run ?E ?cxn demo_seg demo_st (SegNotTranscoded True) (st1\<lparr>bs_closed := True\<rparr>)"
    using eq sub r by (simp add: segment_run.submit_failed)
  show ?thesis
    using run segment_closes_stream [OF run] by auto
qed

text \<open>
  The stop decision on the cases of the spec's section 8: a submission that fails
  because the orchestrator is busy (the structured error or only its text) or refuses
  the connection closes the input stream; one that fails with an unexpected EOF while
  reading the response leaves it as it was.
\<close>

lemma submit_segment_stop_cases:
  "bs_closed (snd (snd (submit_segment (E\<lparr>be_submit := \<lambda>_ _ _. Inl ErrOrchBusy\<rparr>) n s seg st))) \<and>
   bs_closed (snd (snd (submit_segment
     (E\<lparr>be_submit := \<lambda>_ _ _. Inl (ErrorString (error_text ErrOrchBusy))\<rparr>) n s seg st))) \<and>
   bs_closed (snd (snd (submit_segment (E\<lparr>be_submit := \<lambda>_ _ _. Inl (ErrorString
     ''Unable to submit segment 5 Post https://127.0.0.1:8936/segment: dial tcp 127.0.0.1:8936: getsockopt: connection refused'')\<rparr>)
     n s seg st))) \<and>
   bs_closed (snd (snd (submit_segment (E\<lparr>be_submit := \<lambda>_ _ _. Inl (ErrorString
     ''Unable to read response body for segment 4 : unexpected EOF'')\<rparr>) n s seg st))) = bs_closed st"
  using shouldStopSession_spec_cases by (simp add: submit_segment_def)

end
