(* ===== verification/Session.thy ===== *)
theory Session
  imports Segment "HOL-Library.Sublist"
begin

text \<open>
  One stream's segments over time (\<open>src/server/broadcast.go\<close> lines 53--193 called once
  per captured segment): the capture path runs synchronously for each segment in
  capture order, and the goroutine that \<open>processSegment\<close> starts for a segment runs
  concurrently with the capture of later segments and with the goroutines of the other
  segments, all sharing the playlist and the telemetry log. A state \<open>session\<close> holds
  the shared \<open>bcast_state\<close>, the segments the stream has still to deliver, and one
  task per dispatched segment: before its submission, collecting its renditions, or
  ended. \<open>session_step\<close> lets the capture path or any task move, so its runs are all
  interleavings. The download goroutines only append to the playlist and the log and
  never read them, so a segment's collection runs on its own \<open>fanin\<close> copy and its
  appends are forwarded to the shared playlist and log in the same step; every lemma of
  \<open>FanIn\<close> then applies to each segment. A goroutine's panic ends the process.
\<close>

section \<open>Definitions\<close>

datatype seg_task =
    TaskSubmit BroadcastSession string HLSSegment \<comment> \<open>goroutine started, line 94\<close>
  | TaskCollect BroadcastSession HLSSegment "string list" fanin \<comment> \<open>lines 121--184\<close>
  | TaskEnded \<comment> \<open>an early \<open>return\<close> of the goroutine\<close>

record session =
  ss_state :: bcast_state
  ss_input :: "HLSSegment list"
  ss_tasks :: "seg_task list"

definition session_init :: "bcast_state \<Rightarrow> HLSSegment list \<Rightarrow> session" where
  "session_init st segs = \<lparr>ss_state = st, ss_input = segs, ss_tasks = []\<rparr>"

text \<open>A panic in any goroutine ends the process: nothing moves afterwards.\<close>

fun task_panicked :: "seg_task \<Rightarrow> bool" where
  "task_panicked (TaskCollect s seg urls f) = panicked f"
| "task_panicked _ = False"

definition session_panicked :: "session \<Rightarrow> bool" where
  "session_panicked S \<longleftrightarrow> list_ex task_panicked (ss_tasks S)"

text \<open>What one step of a segment's collection appends to the shared playlist and log.\<close>

definition forward :: "fanin \<Rightarrow> fanin \<Rightarrow> bcast_state \<Rightarrow> bcast_state" where
  "forward f f' st =
     st\<lparr>bs_playlist := bs_playlist st @ drop (length (fi_playlist f)) (fi_playlist f'),
        bs_events := bs_events st @ drop (length (fi_events f)) (fi_events f')\<rparr>"

text \<open>
  Who moves: the capture path (the next segment of the stream), or the goroutine of
  dispatched segment \<open>k\<close>; in its collection phase the second argument names the
  download goroutine that moves (\<open>None\<close> for the waiter).
\<close>

datatype sess_choice = ChCapture | ChTask nat "nat option"

definition session_exec :: "bcast_env \<Rightarrow> rtmpConnection \<Rightarrow> sess_choice \<Rightarrow> session \<Rightarrow> session option" where
  "session_exec E cxn ch S =
     (if session_panicked S then None
      else case ch of
        ChCapture \<Rightarrow>
          (case ss_input S of
             [] \<Rightarrow> None
           | seg # rest \<Rightarrow>
               (let (r, seg1, st1) = processSegment_capture E cxn seg (ss_state S);
                    S1 = S\<lparr>ss_state := st1, ss_input := rest\<rparr>
                in Some (case r of
                           CaptureDispatched s name \<Rightarrow> S1\<lparr>ss_tasks := ss_tasks S @ [TaskSubmit s name seg1]\<rparr>
                         | _ \<Rightarrow> S1)))
      | ChTask k ko \<Rightarrow>
          (if length (ss_tasks S) \<le> k then None
           else case ss_tasks S ! k of
             TaskSubmit s name seg1 \<Rightarrow>
               (let (r, seg2, st2) = processSegment_submit E (nonce cxn) s name seg1 (ss_state S)
                in Some (S\<lparr>ss_state := st2,
                           ss_tasks := (ss_tasks S)[k :=
                             (case r of
                                SubmitOK urls \<Rightarrow> TaskCollect s seg2 urls (fanin_init (length urls) [] [])
                              | _ \<Rightarrow> TaskEnded)]\<rparr>))
           | TaskCollect s seg2 urls f \<Rightarrow>
               (case sched_step (segment_dl_ctx E (nonce cxn) s seg2) urls ko f of
                  None \<Rightarrow> None
                | Some f' \<Rightarrow> Some (S\<lparr>ss_state := forward f f' (ss_state S),
                                     ss_tasks := (ss_tasks S)[k := TaskCollect s seg2 urls f']\<rparr>))
           | TaskEnded \<Rightarrow> None))"

inductive session_step :: "bcast_env \<Rightarrow> rtmpConnection \<Rightarrow> session \<Rightarrow> session \<Rightarrow> bool" where
  move: "session_exec E cxn ch S = Some S' \<Longrightarrow> session_step E cxn S S'"

definition session_reach :: "bcast_env \<Rightarrow> rtmpConnection \<Rightarrow> bcast_state \<Rightarrow> HLSSegment list \<Rightarrow> session \<Rightarrow> bool" where
  "session_reach E cxn st segs S \<longleftrightarrow> (session_step E cxn)\<^sup>*\<^sup>* (session_init st segs) S"

fun run_session :: "bcast_env \<Rightarrow> rtmpConnection \<Rightarrow> sess_choice list \<Rightarrow> session \<Rightarrow> session option" where
  "run_session E cxn [] S = Some S"
| "run_session E cxn (ch # chs) S =
     (case session_exec E cxn ch S of None \<Rightarrow> None | Some S' \<Rightarrow> run_session E cxn chs S')"

section \<open>Measures and summaries\<close>

fun task_submits :: "seg_task \<Rightarrow> nat" where
  "task_submits (TaskSubmit s name seg) = 1"
| "task_submits _ = 0"

fun task_measure :: "seg_task \<Rightarrow> nat" where
  "task_measure (TaskCollect s seg urls f) = fanin_measure f"
| "task_measure _ = 0"

definition session_measures :: "(session \<Rightarrow> nat) list" where
  "session_measures =
     [\<lambda>S. length (ss_input S),
      \<lambda>S. \<Sum>j<length (ss_tasks S). task_submits (ss_tasks S ! j),
      \<lambda>S. \<Sum>j<length (ss_tasks S). task_measure (ss_tasks S ! j)]"

fun task_playlist :: "seg_task \<Rightarrow> pl_entry list" where
  "task_playlist (TaskCollect s seg urls f) = fi_playlist f"
| "task_playlist _ = []"

text \<open>
  What each task knows: its goroutine belongs to the connection's session, and in its
  collection phase the URLs are what \<open>SubmitSegment\<close> returned for the segment and
  its state is reachable by the collection of \<open>FanIn\<close> on its own copy.
\<close>

fun task_ok :: "bcast_env \<Rightarrow> rtmpConnection \<Rightarrow> seg_task \<Rightarrow> bool" where
  "task_ok E cxn (TaskSubmit s name seg1) \<longleftrightarrow> sess cxn = Some s"
| "task_ok E cxn (TaskCollect s seg2 urls f) \<longleftrightarrow>
     sess cxn = Some s \<and> be_submit E s seg2 (nonce cxn) = Inr urls \<and>
     fanin_reach (segment_dl_ctx E (nonce cxn) s seg2) urls [] [] f"
| "task_ok E cxn TaskEnded \<longleftrightarrow> True"

text \<open>
  The session invariant, for the first \<open>n\<close> segments captured: the source entries of
  the captured segments appear in the shared playlist in capture order, after its
  initial content, and as a multiset the shared playlist is its initial content, the
  source entries, and what each segment's collection has inserted.
\<close>

definition session_inv :: "bcast_env \<Rightarrow> rtmpConnection \<Rightarrow> bcast_state \<Rightarrow> HLSSegment list \<Rightarrow> session \<Rightarrow> bool" where
  "session_inv E cxn st segs S \<longleftrightarrow>
     (\<exists>n\<le>length segs. ss_input S = drop n segs \<and>
        subseq (bs_playlist st @ concat (map (source_entry E cxn) (take n segs))) (bs_playlist (ss_state S)) \<and>
        mset (bs_playlist (ss_state S)) =
          mset (bs_playlist st) + mset (concat (map (source_entry E cxn) (take n segs))) +
          (\<Sum>j<length (ss_tasks S). mset (task_playlist (ss_tasks S ! j)))) \<and>
     list_all (task_ok E cxn) (ss_tasks S)"

text \<open>A task is finished when its goroutine returned early or its waiter passed the join.\<close>

fun task_finished :: "seg_task \<Rightarrow> bool" where
  "task_finished (TaskCollect s seg urls f) = joined f"
| "task_finished (TaskSubmit s name seg) = False"
| "task_finished TaskEnded = True"

text \<open>
  The renditions a task's collection inserts when its goroutines run alone (the
  sequential meaning of lines 121--184, \<open>accepted_entries\<close> of \<open>FanIn\<close>).
\<close>

fun task_result :: "bcast_env \<Rightarrow> rtmpConnection \<Rightarrow> seg_task \<Rightarrow> pl_entry list" where
  "task_result E cxn (TaskCollect s seg2 urls f) = accepted_entries (segment_dl_ctx E (nonce cxn) s seg2) urls"
| "task_result E cxn _ = []"

text \<open>Every submission of the connection's session returns no more URLs than profiles.\<close>

definition submits_within_profiles :: "bcast_env \<Rightarrow> rtmpConnection \<Rightarrow> bool" where
  "submits_within_profiles E cxn \<longleftrightarrow>
     (\<forall>s sg urls. sess cxn = Some s \<longrightarrow> be_submit E s sg (nonce cxn) = Inr urls \<longrightarrow>
        length urls \<le> length (Profiles s))"

text \<open>
  A concrete stream for the witnesses: two segments (numbers 3 and 4) of the session of
  \<open>Segment\<close>'s examples, each transcoded into two renditions; the schedule captures
  both, then runs the second segment's goroutine to its end before the first one's.
\<close>

definition demo_collect :: "nat \<Rightarrow> sess_choice list" where
  "demo_collect k = concat (replicate 6 [ChTask k (Some 0), ChTask k (Some 1)]) @ [ChTask k None]"

definition demo_stream_sched :: "sess_choice list" where
  "demo_stream_sched =
     [ChCapture, ChCapture, ChTask 1 None] @ demo_collect 1 @ [ChTask 0 None] @ demo_collect 0"

definition demo_stream :: "HLSSegment list" where
  "demo_stream = [demo_seg, demo_seg\<lparr>SeqNo := 4\<rparr>]"

text \<open>A download goroutine inside \<open>errFunc\<close>, about to report (line 126).\<close>

fun at_report :: "dl_pc \<Rightarrow> bool" where
  "at_report (DlErrReport _ _ _) = True"
| "at_report _ = False"

section \<open>Lemmas: one step of a session\<close>

lemma session_exec_Some:
  assumes "session_exec E cxn ch S = Some S'"
  obtains (capture) seg r seg1 where "\<not> session_panicked S" "ss_input S = seg # ss_input S'"
      "processSegment_capture E cxn seg (ss_state S) = (r, seg1, ss_state S')"
      "ss_tasks S' = ss_tasks S @ (case r of CaptureDispatched s name \<Rightarrow> [TaskSubmit s name seg1] | _ \<Rightarrow> [])"
  | (submit) k s name seg1 r seg2 where "\<not> session_panicked S" "k < length (ss_tasks S)"
      "ss_tasks S ! k = TaskSubmit s name seg1" "ss_input S' = ss_input S"
      "processSegment_submit E (nonce cxn) s name seg1 (ss_state S) = (r, seg2, ss_state S')"
      "ss_tasks S' = (ss_tasks S)[k := (case r of
          SubmitOK urls \<Rightarrow> TaskCollect s seg2 urls (fanin_init (length urls) [] []) | _ \<Rightarrow> TaskEnded)]"
  | (collect) k s seg2 urls f ko f' where "\<not> session_panicked S" "k < length (ss_tasks S)"
      "ss_tasks S ! k = TaskCollect s seg2 urls f" "ss_input S' = ss_input S"
      "sched_step (segment_dl_ctx E (nonce cxn) s seg2) urls ko f = Some f'"
      "ss_state S' = forward f f' (ss_state S)"
      "ss_tasks S' = (ss_tasks S)[k := TaskCollect s seg2 urls f']"
proof -
  have np: "\<not> session_panicked S" using assms by (auto simp: session_exec_def)
  show thesis
  proof (cases ch)
    case ChCapture
    with assms np obtain seg rest where inp: "ss_input S = seg # rest"
      by (auto simp: session_exec_def split: list.splits)
    obtain r seg1 st1 where c: "processSegment_capture E cxn seg (ss_state S) = (r, seg1, st1)"
      by (cases "processSegment_capture E cxn seg (ss_state S)") auto
    from assms ChCapture np inp c have S': "S' = (case r of
        CaptureDispatched s name \<Rightarrow>
          S\<lparr>ss_state := st1, ss_input := rest, ss_tasks := ss_tasks S @ [TaskSubmit s name seg1]\<rparr>
      | _ \<Rightarrow> S\<lparr>ss_state := st1, ss_input := rest\<rparr>)"
      by (cases r) (auto simp: session_exec_def Let_def)
    show thesis using np inp c S' by (cases r) (auto intro!: capture [of seg _ seg1])
  next
    case (ChTask k ko)
    with assms np have k: "k < length (ss_tasks S)" by (auto simp: session_exec_def split: if_splits)
    show thesis
    proof (cases "ss_tasks S ! k")
      case (TaskSubmit s name seg1)
      obtain r seg2 st2 where c: "processSegment_submit E (nonce cxn) s name seg1 (ss_state S) = (r, seg2, st2)"
        by (cases "processSegment_submit E (nonce cxn) s name seg1 (ss_state S)") auto
      from assms ChTask np k TaskSubmit c have S': "S' = S\<lparr>ss_state := st2,
          ss_tasks := (ss_tasks S)[k := (case r of
             SubmitOK urls \<Rightarrow> TaskCollect s seg2 urls (fanin_init (length urls) [] []) | _ \<Rightarrow> TaskEnded)]\<rparr>"
        by (simp add: session_exec_def)
      show thesis using np k TaskSubmit c S' by (intro submit [of k s name seg1 r seg2]) simp_all
    next
      case (TaskCollect s seg2 urls f)
      with assms ChTask np k obtain f' where
        sc: "sched_step (segment_dl_ctx E (nonce cxn) s seg2) urls ko f = Some f'"
        and S': "S' = S\<lparr>ss_state := forward f f' (ss_state S),
                        ss_tasks := (ss_tasks S)[k := TaskCollect s seg2 urls f']\<rparr>"
        by (auto simp: session_exec_def split: option.splits)
      show thesis using np k TaskCollect sc S' by (intro collect [of k s seg2 urls f ko f']) simp_all
    next
      case TaskEnded
      with assms ChTask np k show thesis by (simp add: session_exec_def)
    qed
  qed
qed

section \<open>Lemmas: the session invariant\<close>

lemma fanin_step_appends:
  assumes "fanin_step C urls f f'"
  shows "(\<exists>d. fi_playlist f' = fi_playlist f @ d) \<and> (\<exists>e. fi_events f' = fi_events f @ e)"
  using assms
proof cases
  case (task i)
  from dl_step_Some [OF this] dl_exec_appends show ?thesis by blast
next
  case join
  then show ?thesis by simp
qed

lemma submit_ok_urls:
  "processSegment_submit E n s name seg1 st = (SubmitOK urls, seg2, st2) \<Longrightarrow> be_submit E s seg2 n = Inr urls"
  by (auto simp: processSegment_submit_def submit_segment_def split: option.splits sum.splits if_splits)

lemma session_inv_init: "session_inv E cxn st segs (session_init st segs)"
  unfolding session_inv_def session_init_def by (rule conjI, rule exI [of _ 0]) simp_all

lemma session_inv_step:
  assumes "session_step E cxn S S'" and inv: "session_inv E cxn st segs S"
  shows "session_inv E cxn st segs S'"
  using assms(1)
proof cases
  case (move ch)
  from inv obtain n where n: "n \<le> length segs" "ss_input S = drop n segs"
    and sub: "subseq (bs_playlist st @ concat (map (source_entry E cxn) (take n segs))) (bs_playlist (ss_state S))"
    and ms: "mset (bs_playlist (ss_state S)) =
          mset (bs_playlist st) + mset (concat (map (source_entry E cxn) (take n segs))) +
          (\<Sum>j<length (ss_tasks S). mset (task_playlist (ss_tasks S ! j)))"
    and ok: "list_all (task_ok E cxn) (ss_tasks S)"
    by (auto simp: session_inv_def)
  from move show ?thesis
  proof (cases rule: session_exec_Some)
    case (capture seg r seg1)
    note c = capture_cases [OF capture(3)]
    have dn: "drop n segs = seg # ss_input S'" using n(2) capture(2) by simp
    then have nl: "n < length segs" by (metis drop_all list.distinct(1) not_le_imp_less)
    from Cons_nth_drop_Suc [OF nl] dn have "segs ! n # drop (Suc n) segs = seg # ss_input S'" by simp
    then have sn: "segs ! n = seg" and rest: "ss_input S' = drop (Suc n) segs" by auto
    have tk: "take (Suc n) segs = take n segs @ [seg]" using nl sn by (simp add: take_Suc_conv_app_nth)
    have pl: "bs_playlist (ss_state S') = bs_playlist (ss_state S) @ source_entry E cxn seg"
      using c by simp
    have sums: "(\<Sum>j<length (ss_tasks S'). mset (task_playlist (ss_tasks S' ! j))) =
                (\<Sum>j<length (ss_tasks S). mset (task_playlist (ss_tasks S ! j)))"
      using capture(4) sum_nth_append_one [of "\<lambda>t. mset (task_playlist t)" "ss_tasks S"]
      by (cases r) simp_all
    have okn: "list_all (task_ok E cxn) (ss_tasks S')"
      using capture(4) ok c by (cases r) auto
    have "subseq ((bs_playlist st @ concat (map (source_entry E cxn) (take n segs))) @ source_entry E cxn seg)
                 (bs_playlist (ss_state S) @ source_entry E cxn seg)"
      by (rule list_emb_append_mono [OF sub subseq_order.order_refl])
    then have sub': "subseq (bs_playlist st @ concat (map (source_entry E cxn) (take (Suc n) segs)))
                            (bs_playlist (ss_state S'))"
      using tk pl by simp
    show ?thesis unfolding session_inv_def
      using nl rest tk pl sums okn sub' ms
      by (intro conjI exI [of _ "Suc n"]) (simp_all add: add_ac)
  next
    case (submit k s name seg1 r seg2)
    note u = submit_cases [OF submit(5)]
    have sums: "(\<Sum>j<length (ss_tasks S'). mset (task_playlist (ss_tasks S' ! j))) =
                (\<Sum>j<length (ss_tasks S). mset (task_playlist (ss_tasks S ! j)))"
      using sum_nth_update_same [OF submit(2), of "\<lambda>j t. mset (task_playlist t)"] submit(3,6)
      by (cases r) (simp_all add: fanin_init_def)
    from list_all_nthD [OF ok submit(2)] submit(3) have "sess cxn = Some s" by simp
    then have okk: "task_ok E cxn (case r of
          SubmitOK urls \<Rightarrow> TaskCollect s seg2 urls (fanin_init (length urls) [] []) | _ \<Rightarrow> TaskEnded)"
      using submit_ok_urls [of E "nonce cxn" s name seg1 "ss_state S" _ seg2 "ss_state S'"] submit(5)
      by (cases r) (auto simp: fanin_reach_def)
    have okn: "list_all (task_ok E cxn) (ss_tasks S')"
      using list_all_update [OF ok okk] submit(6) by simp
    show ?thesis unfolding session_inv_def
      using n submit(4) u sums okn sub ms by (intro conjI exI [of _ n]) simp_all
  next
    case (collect k s seg2 urls f ko f')
    note st = sched_step_sound [OF collect(5)]
    from fanin_step_appends [OF st] obtain d where d: "fi_playlist f' = fi_playlist f @ d" by blast
    have pl: "bs_playlist (ss_state S') = bs_playlist (ss_state S) @ d"
      using collect(6) d by (simp add: forward_def)
    have "(\<Sum>j<length (ss_tasks S'). mset (task_playlist (ss_tasks S' ! j))) + mset (fi_playlist f) =
          (\<Sum>j<length (ss_tasks S). mset (task_playlist (ss_tasks S ! j))) + mset (fi_playlist f @ d)"
      using sum_nth_update [OF collect(2), of "\<lambda>j t. mset (task_playlist t)" "TaskCollect s seg2 urls f'"]
        collect(3,7) d by simp
    then have sums: "(\<Sum>j<length (ss_tasks S'). mset (task_playlist (ss_tasks S' ! j))) =
          (\<Sum>j<length (ss_tasks S). mset (task_playlist (ss_tasks S ! j))) + mset d"
      by (simp add: add.assoc [symmetric])
    from list_all_nthD [OF ok collect(2)] collect(3) have old: "task_ok E cxn (TaskCollect s seg2 urls f)"
      by simp
    then have "task_ok E cxn (TaskCollect s seg2 urls f')"
      using fanin_reach_step st by auto
    then have okn: "list_all (task_ok E cxn) (ss_tasks S')"
      using list_all_update [OF ok] collect(7) by simp
    show ?thesis unfolding session_inv_def
      using n collect(4) pl sums okn sub ms
      by (intro conjI exI [of _ n]) (simp_all add: subseq_rev_drop_many add_ac)
  qed
qed

lemma session_inv_reach:
  "session_reach E cxn st segs S \<Longrightarrow> session_inv E cxn st segs S"
  unfolding session_reach_def
  by (induction rule: rtranclp_induct) (auto intro: session_inv_init session_inv_step)

section \<open>Lemmas: termination\<close>

lemma session_step_measures:
  assumes "session_step E cxn S S'"
  shows "(S', S) \<in> measures session_measures"
  using assms
proof cases
  case (move ch)
  then show ?thesis
  proof (cases rule: session_exec_Some)
    case (capture seg r seg1)
    then show ?thesis by (simp add: session_measures_def)
  next
    case (submit k s name seg1 r seg2)
    have "(\<Sum>j<length (ss_tasks S'). task_submits (ss_tasks S' ! j)) <
          (\<Sum>j<length (ss_tasks S). task_submits (ss_tasks S ! j))"
      using sum_nth_update_less [OF submit(2), of "\<lambda>j. task_submits"] submit(3,6)
      by (cases r) simp_all
    with submit(4) show ?thesis by (simp add: session_measures_def)
  next
    case (collect k s seg2 urls f ko f')
    have sub: "(\<Sum>j<length (ss_tasks S'). task_submits (ss_tasks S' ! j)) =
               (\<Sum>j<length (ss_tasks S). task_submits (ss_tasks S ! j))"
      using sum_nth_update_same [OF collect(2), of "\<lambda>j. task_submits"] collect(3,7) by simp
    from fanin_step_measure [OF sched_step_sound [OF collect(5)]]
    have "fanin_measure f' < fanin_measure f" .
    then have "(\<Sum>j<length (ss_tasks S'). task_measure (ss_tasks S' ! j)) <
               (\<Sum>j<length (ss_tasks S). task_measure (ss_tasks S ! j))"
      using sum_nth_update_less [OF collect(2), of "\<lambda>j. task_measure"] collect(3,7) by simp
    with collect(4) sub show ?thesis by (simp add: session_measures_def)
  qed
qed

section \<open>Lemmas: completion of a stream\<close>

lemma task_ok_no_panic:
  assumes "task_ok E cxn t" and "submits_within_profiles E cxn"
  shows "\<not> task_panicked t"
proof (cases t)
  case (TaskCollect s seg2 urls f)
  with assms have r: "fanin_reach (segment_dl_ctx E (nonce cxn) s seg2) urls [] [] f"
    and len: "length urls \<le> length (dc_profiles (segment_dl_ctx E (nonce cxn) s seg2))"
    by (auto simp: submits_within_profiles_def segment_dl_ctx_def)
  from fanin_no_panic [OF r len] TaskCollect show ?thesis by simp
qed simp_all

lemma session_no_panic:
  assumes "session_inv E cxn st segs S" and "submits_within_profiles E cxn"
  shows "\<not> session_panicked S"
  using assms task_ok_no_panic
  by (auto simp: session_inv_def session_panicked_def list_all_iff list_ex_iff)

lemma session_capture_progress:
  assumes inv: "session_inv E cxn st segs S" and within: "submits_within_profiles E cxn"
    and "ss_input S \<noteq> []"
  shows "session_exec E cxn ChCapture S \<noteq> None"
  using session_no_panic [OF inv within] assms(3)
  by (auto simp: session_exec_def Let_def neq_Nil_conv split: prod.splits capture_result.splits)

lemma session_task_progress:
  assumes inv: "session_inv E cxn st segs S" and within: "submits_within_profiles E cxn"
    and k: "k < length (ss_tasks S)" and nf: "\<not> task_finished (ss_tasks S ! k)"
  shows "\<exists>ko. session_exec E cxn (ChTask k ko) S \<noteq> None"
proof -
  note np = session_no_panic [OF inv within]
  from inv have ok: "list_all (task_ok E cxn) (ss_tasks S)" by (simp add: session_inv_def)
  show ?thesis
  proof (cases "ss_tasks S ! k")
    case (TaskSubmit s name seg1)
    with np k have "session_exec E cxn (ChTask k None) S \<noteq> None"
      by (auto simp: session_exec_def Let_def split: prod.splits)
    then show ?thesis by blast
  next
    case (TaskCollect s seg2 urls f)
    let ?C = "segment_dl_ctx E (nonce cxn) s seg2"
    from list_all_nthD [OF ok k] TaskCollect have r: "fanin_reach ?C urls [] [] f" by simp
    from np k TaskCollect have "\<not> panicked f"
      by (auto simp: session_panicked_def list_ex_length)
    with fanin_progress [OF fanin_reach_inv [OF r]] nf TaskCollect
    obtain f' where "fanin_step ?C urls f f'" by auto
    from sched_step_complete [OF this] obtain ko where sc: "sched_step ?C urls ko f = Some f'" by blast
    with np k TaskCollect have "session_exec E cxn (ChTask k ko) S \<noteq> None"
      by (simp add: session_exec_def)
    then show ?thesis by blast
  qed (use nf in simp)
qed

lemma session_stuck_done:
  assumes reach: "session_reach E cxn st segs S" and within: "submits_within_profiles E cxn"
    and stuck: "\<not> (\<exists>S'. session_step E cxn S S')"
  shows "ss_input S = [] \<and> list_all task_finished (ss_tasks S)"
proof -
  have inv: "session_inv E cxn st segs S" by (rule session_inv_reach [OF reach])
  have none: "session_exec E cxn ch S = None" for ch
    using stuck by (cases "session_exec E cxn ch S") (auto intro: session_step.move)
  from session_capture_progress [OF inv within] none [of ChCapture] have "ss_input S = []" by blast
  moreover from session_task_progress [OF inv within] none
  have "list_all task_finished (ss_tasks S)" by (auto simp: list_all_length)
  ultimately show ?thesis by simp
qed

lemma session_reach_step:
  "session_reach E cxn st segs S \<Longrightarrow> session_step E cxn S S' \<Longrightarrow> session_reach E cxn st segs S'"
  unfolding session_reach_def by (rule rtranclp.rtrancl_into_rtrancl)

lemma session_reach_maximal:
  assumes "session_reach E cxn st segs S"
  shows "\<exists>S'. (session_step E cxn)\<^sup>*\<^sup>* S S' \<and> session_reach E cxn st segs S' \<and>
              \<not> (\<exists>S2. session_step E cxn S' S2)"
  by (rule maximal_run_exists [of "measures session_measures" "session_step E cxn" "session_reach E cxn st segs",
        OF wf_measures session_step_measures session_reach_step assms])

lemma session_exec_task_finished:
  "task_finished (ss_tasks S ! k) \<Longrightarrow> session_exec E cxn (ChTask k ko) S = None"
  by (cases "ss_tasks S ! k")
     (auto simp: session_exec_def split: option.splits dest!: sched_step_sound dest: fanin_step_joined)

lemma session_done_stuck:
  assumes "ss_input S = []" and "list_all task_finished (ss_tasks S)"
  shows "\<not> session_step E cxn S S'"
proof
  assume "session_step E cxn S S'"
  then obtain ch where ex: "session_exec E cxn ch S = Some S'" by cases
  show False
  proof (cases ch)
    case ChCapture
    from this ex assms(1) show False by (simp add: session_exec_def split: if_splits)
  next
    case (ChTask k ko)
    with ex have "k < length (ss_tasks S)" by (auto simp: session_exec_def split: if_splits)
    from session_exec_task_finished [OF list_all_nthD [OF assms(2) this]] ex ChTask show False by simp
  qed
qed

lemma run_session_sound:
  "run_session E cxn chs S = Some T \<Longrightarrow> (session_step E cxn)\<^sup>*\<^sup>* S T"
proof (induction chs arbitrary: S)
  case Nil
  then show ?case by simp
next
  case (Cons ch chs)
  then obtain S' where s': "session_exec E cxn ch S = Some S'"
    and rest: "run_session E cxn chs S' = Some T"
    by (auto split: option.splits)
  from session_step.move [OF s'] show ?case
    by (rule converse_rtranclp_into_rtranclp [OF _ Cons.IH [OF rest]])
qed

lemmas session_run_simps = session_init_def session_exec_def session_panicked_def Let_def
  processSegment_capture_def insert_hls_def processSegment_submit_def submit_segment_def forward_def
  sched_step_def dl_step_def set_pc_def dl_fetch_def dl_entry_def segment_dl_ctx_def fanin_init_def
  demo_defs log_event_def

lemma demo_stream_run:
  "\<exists>T. run_session (demo_env (Inr [''a'', ''b''])) (demo_cxn demo_os (Some demo_session))
          demo_stream_sched (session_init demo_st demo_stream) = Some T \<and>
       ss_input T = [] \<and> list_all task_finished (ss_tasks T) \<and>
       map fst (map snd (bs_playlist (ss_state T))) = [3, 4, 4, 4, 3, 3]"
  by (simp add: demo_stream_sched_def demo_collect_def demo_stream_def session_run_simps numeral_eq_Suc)

section \<open>Lemmas: telemetry with the monitor disabled\<close>

lemma dl_exec_quiet:
  assumes "\<not> dc_monitor C" and "dl_exec C i url0 p s = Some s'" and "\<not> at_report p"
  shows "fi_events s' = fi_events s \<and>
         (pcs s' = pcs s \<or> (\<exists>p'. pcs s' = (pcs s)[i := p'] \<and> \<not> at_report p'))"
  using assms
  by (cases p) (auto simp: dl_unfold split: fetch_result.splits option.splits if_splits)

lemma fanin_quiet:
  assumes "\<not> dc_monitor C" and "fanin_reach C urls pl0 ev f"
  shows "fi_events f = ev \<and> (\<forall>j<length (pcs f). \<not> at_report (pcs f ! j))"
  using assms(2) unfolding fanin_reach_def
proof (induction rule: rtranclp_induct)
  case base
  then show ?case by (simp add: fanin_init_def)
next
  case (step t u)
  from step.hyps(2) show ?case
  proof cases
    case (task i)
    from dl_step_Some [OF task] have i: "i < length (pcs t)"
      and ex: "dl_exec C i (urls ! i) (pcs t ! i) t = Some u" by auto
    from step.IH i have "\<not> at_report (pcs t ! i)" by blast
    from dl_exec_quiet [OF assms(1) ex this] step.IH i show ?thesis
      by (auto simp: nth_list_update split: if_splits)
  next
    case join
    with step.IH show ?thesis by simp
  qed
qed

lemma capture_quiet:
  "\<not> be_monitor E \<Longrightarrow> processSegment_capture E cxn seg st = (r, seg1, st1) \<Longrightarrow> bs_events st1 = bs_events st"
  by (auto simp: processSegment_capture_def insert_hls_def log_event_def Let_def
      split: sum.splits option.splits prod.splits)

lemma submit_quiet:
  "\<not> be_monitor E \<Longrightarrow> processSegment_submit E n s name seg st = (r, seg2, st2) \<Longrightarrow> bs_events st2 = bs_events st"
  by (auto simp: processSegment_submit_def submit_segment_def log_event_def
      split: option.splits sum.splits if_splits)

lemma session_step_events_quiet:
  assumes "\<not> be_monitor E" and "session_step E cxn S S'" and "session_inv E cxn st segs S"
  shows "bs_events (ss_state S') = bs_events (ss_state S)"
  using assms(2)
proof cases
  case (move ch)
  then show ?thesis
  proof (cases rule: session_exec_Some)
    case (capture seg r seg1)
    from capture_quiet [OF assms(1) capture(3)] show ?thesis .
  next
    case (submit k s name seg1 r seg2)
    from submit_quiet [OF assms(1) submit(5)] show ?thesis .
  next
    case (collect k s seg2 urls f ko f')
    let ?C = "segment_dl_ctx E (nonce cxn) s seg2"
    have m: "\<not> dc_monitor ?C" using assms(1) by (simp add: segment_dl_ctx_def)
    from assms(3) have "list_all (task_ok E cxn) (ss_tasks S)" by (simp add: session_inv_def)
    from list_all_nthD [OF this collect(2)] collect(3)
    have r: "fanin_reach ?C urls [] [] f" by simp
    have r': "fanin_reach ?C urls [] [] f'"
      by (rule fanin_reach_step [OF r sched_step_sound [OF collect(5)]])
    from fanin_quiet [OF m r] fanin_quiet [OF m r'] collect(6) show ?thesis
      by (simp add: forward_def)
  qed
qed

section \<open>Properties\<close>

text \<open>
  C10: in every interleaving, the source renditions of the segments captured so far are in
  the shared playlist in capture order, after its initial content, however the
  transcoded renditions of earlier segments' goroutines interleave with them.
\<close>

theorem session_source_order:
  assumes "session_reach E cxn st segs S"
  shows "subseq (bs_playlist st @ concat (map (source_entry E cxn) (take (length segs - length (ss_input S)) segs)))
                (bs_playlist (ss_state S))"
proof -
  from session_inv_reach [OF assms] obtain n where n: "n \<le> length segs" "ss_input S = drop n segs"
    and sub: "subseq (bs_playlist st @ concat (map (source_entry E cxn) (take n segs))) (bs_playlist (ss_state S))"
    by (auto simp: session_inv_def)
  from n have "length segs - length (ss_input S) = n" by simp
  with sub show ?thesis by simp
qed

theorem session_source_order_witness:
  "\<exists>T. session_reach (demo_env (Inr [''a'', ''b''])) (demo_cxn demo_os (Some demo_session)) demo_st
         demo_stream T \<and> ss_input T = [] \<and>
       subseq (concat (map (source_entry (demo_env (Inr [''a'', ''b''])) (demo_cxn demo_os (Some demo_session)))
                 demo_stream)) (bs_playlist (ss_state T))"
proof -
  from demo_stream_run obtain T where
    run: "run_session (demo_env (Inr [''a'', ''b''])) (demo_cxn demo_os (Some demo_session))
            demo_stream_sched (session_init demo_st demo_stream) = Some T" and inp: "ss_input T = []"
    by blast
  have r: "session_reach (demo_env (Inr [''a'', ''b''])) (demo_cxn demo_os (Some demo_session)) demo_st
             demo_stream T"
    unfolding session_reach_def by (rule run_session_sound [OF run])
  from session_source_order [OF r] inp r show ?thesis by (auto simp: demo_st_def)
qed

text \<open>
  C9: a stream's processing always completes when every submission returns no more URLs
  than the session has profiles: from every reachable state some interleaving reaches a
  state where nothing can move, and in every such state all segments have been captured
  and every segment's goroutine has returned early or passed its join (no hang, no
  panic).
\<close>

theorem session_completes:
  assumes "session_reach E cxn st segs S" and "submits_within_profiles E cxn"
  shows "(\<exists>S'. (session_step E cxn)\<^sup>*\<^sup>* S S' \<and> \<not> (\<exists>S2. session_step E cxn S' S2)) \<and>
         (\<not> (\<exists>S2. session_step E cxn S S2) \<longrightarrow>
            ss_input S = [] \<and> list_all task_finished (ss_tasks S))"
  using session_reach_maximal [OF assms(1)] session_stuck_done [OF assms] by blast

theorem session_completes_witness:
  "session_reach (demo_env (Inr [''a'', ''b''])) (demo_cxn demo_os (Some demo_session)) demo_st demo_stream
     (session_init demo_st demo_stream) \<and>
   submits_within_profiles (demo_env (Inr [''a'', ''b''])) (demo_cxn demo_os (Some demo_session)) \<and>
   (\<exists>S'. (session_step (demo_env (Inr [''a'', ''b''])) (demo_cxn demo_os (Some demo_session)))\<^sup>*\<^sup>*
           (session_init demo_st demo_stream) S' \<and>
         \<not> (\<exists>S2. session_step (demo_env (Inr [''a'', ''b''])) (demo_cxn demo_os (Some demo_session)) S' S2))"
proof -
  have r: "session_reach (demo_env (Inr [''a'', ''b''])) (demo_cxn demo_os (Some demo_session)) demo_st
             demo_stream (session_init demo_st demo_stream)"
    by (simp add: session_reach_def)
  have w: "submits_within_profiles (demo_env (Inr [''a'', ''b''])) (demo_cxn demo_os (Some demo_session))"
    by (simp add: submits_within_profiles_def demo_defs)
  from session_completes [OF r w] r w show ?thesis by blast
qed

text \<open>
  C8: when a stream's processing has completed, the shared playlist holds, as a multiset,
  its initial content, the source entry of every segment whose save and insert
  succeeded, and for every collected segment exactly the renditions its goroutines insert
  when run alone: interleaving the segments' goroutines loses and duplicates nothing.
\<close>

theorem session_playlist_result:
  assumes reach: "session_reach E cxn st segs S" and within: "submits_within_profiles E cxn"
    and stuck: "\<not> (\<exists>S2. session_step E cxn S S2)"
  shows "mset (bs_playlist (ss_state S)) =
           mset (bs_playlist st) + mset (concat (map (source_entry E cxn) segs)) +
           (\<Sum>j<length (ss_tasks S). mset (task_result E cxn (ss_tasks S ! j)))"
proof -
  from session_stuck_done [OF reach within stuck]
  have inp: "ss_input S = []" and fin: "list_all task_finished (ss_tasks S)" by simp_all
  from session_inv_reach [OF reach] obtain n where n: "n \<le> length segs" "ss_input S = drop n segs"
    and ms: "mset (bs_playlist (ss_state S)) =
          mset (bs_playlist st) + mset (concat (map (source_entry E cxn) (take n segs))) +
          (\<Sum>j<length (ss_tasks S). mset (task_playlist (ss_tasks S ! j)))"
    and ok: "list_all (task_ok E cxn) (ss_tasks S)"
    by (auto simp: session_inv_def)
  from n inp have "take n segs = segs" by simp
  moreover have "mset (task_playlist (ss_tasks S ! j)) = mset (task_result E cxn (ss_tasks S ! j))"
    if j: "j < length (ss_tasks S)" for j
  proof (cases "ss_tasks S ! j")
    case (TaskCollect s seg2 urls f)
    with list_all_nthD [OF ok j] list_all_nthD [OF fin j]
    have r: "fanin_reach (segment_dl_ctx E (nonce cxn) s seg2) urls [] [] f" and "joined f" by simp_all
    from fanin_joined_playlist [OF this] TaskCollect show ?thesis by auto
  qed simp_all
  then have "(\<Sum>j<length (ss_tasks S). mset (task_playlist (ss_tasks S ! j))) =
             (\<Sum>j<length (ss_tasks S). mset (task_result E cxn (ss_tasks S ! j)))"
    by (intro sum.cong) simp_all
  ultimately show ?thesis using ms by simp
qed

theorem session_playlist_result_witness:
  "\<exists>T. session_reach (demo_env (Inr [''a'', ''b''])) (demo_cxn demo_os (Some demo_session)) demo_st
         demo_stream T \<and>
       submits_within_profiles (demo_env (Inr [''a'', ''b''])) (demo_cxn demo_os (Some demo_session)) \<and>
       \<not> (\<exists>S2. session_step (demo_env (Inr [''a'', ''b''])) (demo_cxn demo_os (Some demo_session)) T S2) \<and>
       mset (bs_playlist (ss_state T)) =
         mset (bs_playlist demo_st) +
         mset (concat (map (source_entry (demo_env (Inr [''a'', ''b''])) (demo_cxn demo_os (Some demo_session)))
           demo_stream)) +
         (\<Sum>j<length (ss_tasks T). mset (task_result (demo_env (Inr [''a'', ''b'']))
            (demo_cxn demo_os (Some demo_session)) (ss_tasks T ! j)))"
proof -
  let ?E = "demo_env (Inr [''a'', ''b''])" and ?cxn = "demo_cxn demo_os (Some demo_session)"
  from demo_stream_run obtain T where
    run: "run_session ?E ?cxn demo_stream_sched (session_init demo_st demo_stream) = Some T"
    and inp: "ss_input T = []" and fin: "list_all task_finished (ss_tasks T)"
    by blast
  have r: "session_reach ?E ?cxn demo_st demo_stream T"
    unfolding session_reach_def by (rule run_session_sound [OF run])
  have w: "submits_within_profiles ?E ?cxn"
    by (simp add: submits_within_profiles_def demo_defs)
  have stuck: "\<not> (\<exists>S2. session_step ?E ?cxn T S2)"
    using session_done_stuck [OF inp fin] by blast
  from session_playlist_result [OF r w stuck] r w stuck show ?thesis by blast
qed

text \<open>
  C16: with monitoring disabled (\<open>monitor.Enabled\<close> false) a stream never writes to the
  telemetry log, in any interleaving of its capture path and segment goroutines: every
  call of the source's \<open>monitor.Log...\<close> functions is guarded by the flag.
\<close>

theorem session_quiet_without_monitor:
  assumes "\<not> be_monitor E" and "session_reach E cxn st segs S"
  shows "bs_events (ss_state S) = bs_events st"
  using assms(2) unfolding session_reach_def
proof (induction rule: rtranclp_induct)
  case base
  then show ?case by (simp add: session_init_def)
next
  case (step S S')
  have "session_inv E cxn st segs S"
    using step.hyps(1) by (rule session_inv_reach [unfolded session_reach_def])
  with session_step_events_quiet [OF assms(1) step.hyps(2)] step.IH show ?case by simp
qed

theorem session_quiet_without_monitor_witness:
  "\<not> be_monitor ((demo_env (Inr [''a'', ''b'']))\<lparr>be_monitor := False\<rparr>) \<and>
   session_reach ((demo_env (Inr [''a'', ''b'']))\<lparr>be_monitor := False\<rparr>) (demo_cxn demo_os (Some demo_session))
     demo_st demo_stream (session_init demo_st demo_stream) \<and>
   bs_events (ss_state (session_init demo_st demo_stream)) = []"
proof -
  let ?E = "(demo_env (Inr [''a'', ''b'']))\<lparr>be_monitor := False\<rparr>"
  have m: "\<not> be_monitor ?E" by simp
  have r: "session_reach ?E (demo_cxn demo_os (Some demo_session)) demo_st demo_stream
             (session_init demo_st demo_stream)"
    by (simp add: session_reach_def)
  from session_quiet_without_monitor [OF m r] m r show ?thesis by (simp add: demo_st_def)
qed

end
