(* ===== verification/SessionOrder.thy ===== *)
theory SessionOrder
  imports Session
begin

text \<open>
  Two guarantees of a stream's interleavings (theory \<open>Session\<close>) about the order of
  what reaches the shared state. Each segment's source rendition is in the shared
  playlist before any of its transcoded renditions, and those stay in the order the
  segment's goroutines inserted them, however other segments interleave (lines 79 and
  169 of \<open>src/server/broadcast.go\<close>). And the input stream is closed only when some
  submission of the stream failed with an error the classifier deems session-ending
  (lines 112--117): the stream stops for no other reason.
\<close>

section \<open>Definitions\<close>

text \<open>
  What a task has put into the shared playlist, in order: the source entry the capture
  path inserted for its segment, then the renditions its collection inserted.
\<close>

fun task_trace :: "bcast_env \<Rightarrow> rtmpConnection \<Rightarrow> seg_task \<Rightarrow> pl_entry list" where
  "task_trace E cxn (TaskSubmit s name seg) = source_entry E cxn seg"
| "task_trace E cxn (TaskCollect s seg urls f) = source_entry E cxn seg @ fi_playlist f"
| "task_trace E cxn TaskEnded = []"

text \<open>
  Likewise for the shared telemetry log: the events the capture path logged for the
  task's segment, then those its collection logged.
\<close>

fun task_log :: "bcast_env \<Rightarrow> rtmpConnection \<Rightarrow> seg_task \<Rightarrow> event list" where
  "task_log E cxn (TaskSubmit s name seg) = capture_events E cxn seg"
| "task_log E cxn (TaskCollect s seg urls f) = capture_events E cxn seg @ fi_events f"
| "task_log E cxn TaskEnded = []"

definition traces_ok :: "bcast_env \<Rightarrow> rtmpConnection \<Rightarrow> session \<Rightarrow> bool" where
  "traces_ok E cxn S \<longleftrightarrow>
     list_all (\<lambda>t. subseq (task_trace E cxn t) (bs_playlist (ss_state S))) (ss_tasks S) \<and>
     list_all (\<lambda>t. subseq (task_log E cxn t) (bs_events (ss_state S))) (ss_tasks S)"

section \<open>Lemmas: per-segment order\<close>

text \<open>
  The shared playlist and log only grow at their ends, so what each task has put there
  stays a subsequence; a task whose trace grows by the same suffix stays one too.
\<close>

lemma traces_append:
  "list_all (\<lambda>t. subseq (g t) xs) ts \<Longrightarrow> list_all (\<lambda>t. subseq (g t) (xs @ d)) ts"
  by (auto simp: list_all_iff intro: subseq_rev_drop_many)

lemma traces_snoc:
  "list_all (\<lambda>t. subseq (g t) xs) ts \<Longrightarrow> subseq (g t') (xs @ d) \<Longrightarrow>
     list_all (\<lambda>t. subseq (g t) (xs @ d)) (ts @ [t'])"
  by (simp add: traces_append)

lemma traces_update:
  "list_all (\<lambda>t. subseq (g t) xs) ts \<Longrightarrow> subseq (g t') (xs @ d) \<Longrightarrow>
     list_all (\<lambda>t. subseq (g t) (xs @ d)) (ts[k := t'])"
  by (rule list_all_update [OF traces_append])

lemma subseq_suffix_new: "subseq d (xs @ d)"
  by (rule subseq_drop_many [OF subseq_order.order_refl])

lemma subseq_grow: "subseq t xs \<Longrightarrow> subseq (t @ d) (xs @ d)"
  by (rule list_emb_append_mono [OF _ subseq_order.order_refl])

lemma traces_ok_init: "traces_ok E cxn (session_init st segs)"
  by (simp add: traces_ok_def session_init_def)

lemma traces_ok_step:
  assumes "session_step E cxn S S'" and ok: "traces_ok E cxn S"
  shows "traces_ok E cxn S'"
  using assms(1)
proof cases
  case (move ch)
  let ?P = "bs_playlist (ss_state S)" and ?L = "bs_events (ss_state S)"
  from ok have oldp: "list_all (\<lambda>t. subseq (task_trace E cxn t) ?P) (ss_tasks S)"
    and oldl: "list_all (\<lambda>t. subseq (task_log E cxn t) ?L) (ss_tasks S)"
    by (simp_all add: traces_ok_def)
  from move show ?thesis
  proof (cases rule: session_exec_Some)
    case (capture seg r seg1)
    note c = capture_cases [OF capture(3)]
    have src: "source_entry E cxn seg1 = source_entry E cxn seg"
      and ev: "capture_events E cxn seg1 = capture_events E cxn seg"
      using c by (intro source_entry_cong capture_events_cong; simp)+
    have pl: "bs_playlist (ss_state S') = ?P @ source_entry E cxn seg"
      using c by simp
    have lg: "bs_events (ss_state S') = ?L @ capture_events E cxn seg"
      by (rule capture_events_log [OF capture(3)])
    show ?thesis
    proof (cases r)
      case (CaptureDispatched s name)
      have "list_all (\<lambda>t. subseq (task_trace E cxn t) (?P @ source_entry E cxn seg))
              (ss_tasks S @ [TaskSubmit s name seg1])"
        by (rule traces_snoc [OF oldp]) (simp add: src subseq_suffix_new)
      moreover have "list_all (\<lambda>t. subseq (task_log E cxn t) (?L @ capture_events E cxn seg))
              (ss_tasks S @ [TaskSubmit s name seg1])"
        by (rule traces_snoc [OF oldl]) (simp add: ev subseq_suffix_new)
      ultimately show ?thesis
        using capture(4) pl lg CaptureDispatched by (simp add: traces_ok_def)
    qed (use capture(4) pl lg traces_append [OF oldp] traces_append [OF oldl] in
          \<open>simp_all add: traces_ok_def\<close>)
  next
    case (submit k s name seg1 r seg2)
    note u = submit_cases [OF submit(5)]
    obtain e where lg: "bs_events (ss_state S') = ?L @ e"
      using submit_events_append [OF submit(5)] by blast
    have src: "source_entry E cxn seg2 = source_entry E cxn seg1"
      and ev: "capture_events E cxn seg2 = capture_events E cxn seg1"
      using u by (intro source_entry_cong capture_events_cong; simp)+
    let ?t = "case r of SubmitOK urls \<Rightarrow> TaskCollect s seg2 urls (fanin_init (length urls) [] [])
                | _ \<Rightarrow> TaskEnded"
    from list_all_nthD [OF oldp submit(2)] list_all_nthD [OF oldl submit(2)] submit(3)
    have "subseq (source_entry E cxn seg1) ?P" and "subseq (capture_events E cxn seg1) ?L"
      by simp_all
    then have "subseq (task_trace E cxn ?t) (?P @ [])" and "subseq (task_log E cxn ?t) (?L @ e)"
      using src ev by (cases r; simp add: fanin_init_def subseq_rev_drop_many)+
    from traces_update [OF oldp this(1)] traces_update [OF oldl this(2)] submit(6) u lg
    show ?thesis by (simp add: traces_ok_def)
  next
    case (collect k s seg2 urls f ko f')
    from fanin_step_appends [OF sched_step_sound [OF collect(5)]]
    obtain d e where d: "fi_playlist f' = fi_playlist f @ d" and e: "fi_events f' = fi_events f @ e"
      by blast
    have pl: "bs_playlist (ss_state S') = ?P @ d" and lg: "bs_events (ss_state S') = ?L @ e"
      using collect(6) d e by (simp_all add: forward_def)
    from list_all_nthD [OF oldp collect(2)] list_all_nthD [OF oldl collect(2)] collect(3)
    have "subseq (source_entry E cxn seg2 @ fi_playlist f) ?P"
      and "subseq (capture_events E cxn seg2 @ fi_events f) ?L" by simp_all
    then have "subseq (task_trace E cxn (TaskCollect s seg2 urls f')) (?P @ d)"
      and "subseq (task_log E cxn (TaskCollect s seg2 urls f')) (?L @ e)"
      using d e subseq_grow [of "source_entry E cxn seg2 @ fi_playlist f" _ d]
        subseq_grow [of "capture_events E cxn seg2 @ fi_events f" _ e] by simp_all
    from traces_update [OF oldp this(1)] traces_update [OF oldl this(2)] collect(7) pl lg
    show ?thesis by (simp add: traces_ok_def)
  qed
qed

lemma traces_ok_reach: "session_reach E cxn st segs S \<Longrightarrow> traces_ok E cxn S"
  unfolding session_reach_def
  by (induction rule: rtranclp_induct) (auto intro: traces_ok_init traces_ok_step)

section \<open>Lemmas: closing the input stream\<close>

lemma session_step_closed:
  assumes "session_step E cxn S S'" and "session_inv E cxn st segs S"
  shows "bs_closed (ss_state S') \<longleftrightarrow>
           bs_closed (ss_state S) \<or>
           (\<exists>s sg err. sess cxn = Some s \<and> be_submit E s sg (nonce cxn) = Inl err \<and> shouldStopSession err \<and>
              bs_closed (ss_state S'))"
  using assms(1)
proof cases
  case (move ch)
  then show ?thesis
  proof (cases rule: session_exec_Some)
    case (capture seg r seg1)
    from capture_cases [OF capture(3)] show ?thesis by auto
  next
    case (submit k s name seg1 r seg2)
    from assms(2) have "list_all (task_ok E cxn) (ss_tasks S)" by (simp add: session_inv_def)
    from list_all_nthD [OF this submit(2)] submit(3) have "sess cxn = Some s" by simp
    with submit_cases [OF submit(5)] show ?thesis by auto
  next
    case (collect k s seg2 urls f ko f')
    then show ?thesis by (auto simp: forward_def)
  qed
qed

lemma session_closed_origin_reach:
  assumes "session_reach E cxn st segs S"
  shows "bs_closed (ss_state S) \<longrightarrow>
           bs_closed st \<or> (\<exists>s sg err. sess cxn = Some s \<and> be_submit E s sg (nonce cxn) = Inl err \<and>
                                        shouldStopSession err)"
  using assms unfolding session_reach_def
proof (induction rule: rtranclp_induct)
  case base
  then show ?case by (simp add: session_init_def)
next
  case (step S S')
  have "session_inv E cxn st segs S"
    using step.hyps(1) by (rule session_inv_reach [unfolded session_reach_def])
  from session_step_closed [OF step.hyps(2) this] step.IH show ?case by blast
qed

lemma demo_closing_run:
  "\<exists>T. run_session (demo_env (Inl (ErrorString ''dial tcp 127.0.0.1:8936: connection refused'')))
          (demo_cxn demo_os (Some demo_session)) [ChCapture, ChTask 0 None]
          (session_init demo_st [demo_seg]) = Some T \<and> bs_closed (ss_state T)"
  by (simp add: session_run_simps session_error_patterns_def sublist_code)

lemma demo_first_insert_run:
  "\<exists>T s seg urls f. run_session (demo_env (Inr [''a'', ''b''])) (demo_cxn demo_os (Some demo_session))
          [ChCapture, ChTask 0 None, ChTask 0 (Some 0), ChTask 0 (Some 0), ChTask 0 (Some 0)]
          (session_init demo_st [demo_seg]) = Some T \<and>
       0 < length (ss_tasks T) \<and> ss_tasks T ! 0 = TaskCollect s seg urls f \<and> fi_playlist f \<noteq> []"
  by (simp add: session_run_simps)

section \<open>Properties\<close>

text \<open>
  C11: in every interleaving of a stream, each collecting segment's source rendition is in
  the shared playlist before any of its transcoded renditions, and these appear in the
  order its download goroutines inserted them, whatever the other segments did; likewise
  the segment's telemetry events (emerged, source appeared, then those of its download
  goroutines) appear in the shared log in the order the segment logged them.
\<close>

theorem session_segment_order:
  assumes "session_reach E cxn st segs S" and "k < length (ss_tasks S)"
    and "ss_tasks S ! k = TaskCollect s seg urls f"
  shows "subseq (source_entry E cxn seg @ fi_playlist f) (bs_playlist (ss_state S)) \<and>
         subseq (capture_events E cxn seg @ fi_events f) (bs_events (ss_state S))"
proof -
  from traces_ok_reach [OF assms(1)] have
    "list_all (\<lambda>t. subseq (task_trace E cxn t) (bs_playlist (ss_state S))) (ss_tasks S)"
    "list_all (\<lambda>t. subseq (task_log E cxn t) (bs_events (ss_state S))) (ss_tasks S)"
    by (simp_all add: traces_ok_def)
  from list_all_nthD [OF this(1) assms(2)] list_all_nthD [OF this(2) assms(2)] assms(3)
  show ?thesis by simp
qed

theorem session_segment_order_witness:
  "\<exists>T s seg urls f. session_reach (demo_env (Inr [''a'', ''b''])) (demo_cxn demo_os (Some demo_session))
       demo_st [demo_seg] T \<and> 0 < length (ss_tasks T) \<and> ss_tasks T ! 0 = TaskCollect s seg urls f \<and>
     fi_playlist f \<noteq> [] \<and>
     subseq (source_entry (demo_env (Inr [''a'', ''b''])) (demo_cxn demo_os (Some demo_session)) seg @ fi_playlist f)
       (bs_playlist (ss_state T)) \<and>
     subseq (capture_events (demo_env (Inr [''a'', ''b''])) (demo_cxn demo_os (Some demo_session)) seg @ fi_events f)
       (bs_events (ss_state T))"
proof -
  let ?E = "demo_env (Inr [''a'', ''b''])" and ?cxn = "demo_cxn demo_os (Some demo_session)"
  from demo_first_insert_run obtain T s seg urls f where
    run: "run_session ?E ?cxn [ChCapture, ChTask 0 None, ChTask 0 (Some 0), ChTask 0 (Some 0), ChTask 0 (Some 0)]
            (session_init demo_st [demo_seg]) = Some T"
    and k: "0 < length (ss_tasks T)" and t: "ss_tasks T ! 0 = TaskCollect s seg urls f"
    and ne: "fi_playlist f \<noteq> []"
    by blast
  have r: "session_reach ?E ?cxn demo_st [demo_seg] T"
    unfolding session_reach_def by (rule run_session_sound [OF run])
  from session_segment_order [OF r k t] r k t ne show ?thesis by blast
qed

text \<open>
  C12: the input stream is closed in some interleaving of a stream only if it was closed
  before or some submission of the stream's session failed with an error the classifier
  deems session-ending (section 7 of the spec: only classified-fatal submission errors
  close the source).
\<close>

theorem session_closed_origin:
  assumes "session_reach E cxn st segs S" and "bs_closed (ss_state S)"
  shows "bs_closed st \<or>
         (\<exists>s sg err. sess cxn = Some s \<and> be_submit E s sg (nonce cxn) = Inl err \<and> shouldStopSession err)"
  using session_closed_origin_reach [OF assms(1)] assms(2) by blast

theorem session_closed_origin_witness:
  "\<exists>T. session_reach (demo_env (Inl (ErrorString ''dial tcp 127.0.0.1:8936: connection refused'')))
         (demo_cxn demo_os (Some demo_session)) demo_st [demo_seg] T \<and> bs_closed (ss_state T) \<and>
       \<not> bs_closed demo_st \<and>
       (\<exists>s sg err. sess (demo_cxn demo_os (Some demo_session)) = Some s \<and>
          be_submit (demo_env (Inl (ErrorString ''dial tcp 127.0.0.1:8936: connection refused''))) s sg
            (nonce (demo_cxn demo_os (Some demo_session))) = Inl err \<and> shouldStopSession err)"
proof -
  let ?E = "demo_env (Inl (ErrorString ''dial tcp 127.0.0.1:8936: connection refused''))"
  let ?cxn = "demo_cxn demo_os (Some demo_session)"
  from demo_closing_run obtain T where
    run: "run_session ?E ?cxn [ChCapture, ChTask 0 None] (session_init demo_st [demo_seg]) = Some T"
    and c: "bs_closed (ss_state T)" by blast
  have r: "session_reach ?E ?cxn demo_st [demo_seg] T"
    unfolding session_reach_def by (rule run_session_sound [OF run])
  have o: "\<not> bs_closed demo_st" by (simp add: demo_st_def)
  from session_closed_origin [OF r c] r c o show ?thesis by blast
qed

end
