(* ===== verification/Spec2Isabelle.thy ===== *)
theory Spec2Isabelle
  imports TicketStore Broker Validator FanIn FanInSlots FailurePolicy Segment Session SessionOrder
begin

text \<open>
  \<^bold>\<open>A verification development of go-livepeer's broadcaster segment pipeline and
  its micropayment stubs.\<close>

  \<^bold>\<open>The program.\<close> Three Go files. \<open>src/pm/stub.go\<close> holds the in-memory
  implementations of the probabilistic-micropayment interfaces: a ticket store
  (\<open>stubTicketStore\<close>), a signature verifier (\<open>stubSigVerifier\<close>), the broker
  that keeps deposits, penalty escrows, approved signers and the registry of redeemed
  tickets (\<open>stubBroker\<close>), and a ticket validator (\<open>stubValidator\<close>).
  \<open>src/server/broadcast.go\<close> holds the broadcaster side of segment distribution:
  \<open>selectOrchestrator\<close> builds a \<open>BroadcastSession\<close> from the discovery pool, and
  \<open>processSegment\<close> saves each captured segment, inserts it into the playlist,
  and in a goroutine submits it to the orchestrator and collects the transcoded
  renditions with one download goroutine per rendition, joined by a counter and a
  condition variable. \<open>src/server/broadcast_test.go\<close> tests the session-stop
  classification \<open>shouldStopSession\<close>, whose code is not among the sources.

  \<^bold>\<open>Theories and what they model.\<close>
  \<^item> \<open>Prelude\<close>: machine types (bytes, 160-bit addresses, 256-bit hashes as words,
    big integers as \<open>int\<close>), Go's reading of a map of slices (\<open>slice_of\<close>,
    \<open>append_at\<close>), decimal formatting for \<open>%d\<close>, and the shared lemmas on sums
    over the slots of a list that the counting proofs of \<open>FanIn\<close> use.
  \<^item> \<open>TicketStore\<close>: \<open>stubTicketStore\<close> as a record of three maps; \<open>Store\<close>
    and \<open>Load\<close>; a run of stores \<open>store_all\<close>. Lemmas: round trip of \<open>Load\<close>
    after stores, and as its consequences index alignment and append-only growth.
  \<^item> \<open>Broker\<close>: \<open>stubBroker\<close> as a record; one definition per method, methods with
    an \<open>error\<close> result returning it beside the new state; \<open>ApproveSigners\<close>' index
    loop as a terminating \<open>function\<close>; the broker as a machine over its mutating
    calls (\<open>broker_step\<close>, \<open>broker_run\<close>); the spec's redemption contract
    \<open>redeem_contract\<close>. Lemmas: exact content of the replay registry after any run,
    refinement of the contract on fresh tickets and the replay the stub accepts, the
    \<open>NoDeposit\<close> error for never-set deposits (funding calls are no-ops), the loop as
    a set union, approvals that ignore the sender.
  \<^item> \<open>Validator\<close>: \<open>stubSigVerifier\<close> and \<open>stubValidator\<close> (stub.go lines
    36--46, 140--163) with their setters; the spec's ordered validation
    \<open>validate_contract\<close>, composed from \<open>Verify\<close> and the broker's
    \<open>IsApprovedSigner\<close>, \<open>IsUsedTicket\<close> and \<open>GetDeposit\<close>; the win test on a
    256-bit digest. The repository's \<open>ValidateTicket\<close> only returns its flag, so the
    spec's contract is kept for reference and no property of the stubs rests on it.
    Lemma: exactly \<open>winProb\<close> of the \<open>2^256\<close> digests win.
  \<^item> \<open>Orchestrator\<close>: the collaborator values (storage sessions as their
    \<open>SaveData\<close> results and \<open>IsExternal\<close> flag, orchestrator infos, the node with
    its optional pool, the playlist manager) and \<open>selectOrchestrator\<close> on all its
    branches.
  \<^item> \<open>FanIn\<close>: the collection of renditions in \<open>processSegment\<close> (lines
    121--184). Each \<open>dlFunc\<close> goroutine is a program counter (\<open>dl_pc\<close>) with its
    local \<open>url\<close>; one atomic action of goroutine \<open>i\<close> is \<open>dl_exec\<close>; the shared
    state \<open>fanin\<close> holds the variables the goroutines share in the source (\<open>n\<close>,
    \<open>gotErr\<close>, \<open>segHashes\<close>, the goroutine-level \<open>err\<close>), the playlist, the
    telemetry log and whether a goroutine panicked; \<open>fanin_step\<close> lets any goroutine
    or the waiter move, so its runs are all interleavings. Actions are split where the
    source reads and writes shared variables in separate statements (\<open>err\<close> and
    \<open>gotErr\<close>), and merged where the source holds the mutex or touches only local
    state. Lemmas: every interleaving is finite (a rank measure on program counters;
    a helper for the maximal runs), an interleaving can stop only past the join when there are no more URLs than
    profiles, the multiset of inserted renditions equals the per-goroutine sequential
    results, the single-failure scenario as an invariant by rule induction, and two
    races: duplicate failure reports and an unreported rejected insert.
  \<^item> \<open>FanInSlots\<close>: the per-goroutine slots of the collection: the counter \<open>n\<close>,
    the \<open>segHashes\<close> slots and the \<open>sess.Profiles\<close> slots. Lemmas: \<open>n\<close> stays within
    \<open>0..len(urls)\<close> and is never decremented at zero (so the model's natural-number
    counter is Go's \<open>int\<close>); after the join each hash slot holds its own goroutine's
    hash; a result URL without a profile makes every interleaving end in a panic.
  \<^item> \<open>FailurePolicy\<close>: the classifier \<open>shouldStopSession\<close> (called
    \<open>shouldStopStream\<close> by \<open>processSegment\<close>), which is not among the sources and is
    modelled from the spec (structured orchestrator-busy error, known substrings of
    transport errors), and the repository's \<open>TestStopSessionErrors\<close> as a predicate
    over a classifier. Lemmas: the spec's cases, and that every classifier the test
    accepts stops the session on the single unexpected EOF the spec says must not stop
    it, so no classifier that follows the spec passes the test.
  \<^item> \<open>Segment\<close>: the rest of \<open>processSegment\<close> (lines 53--119): the capture path
    \<open>processSegment_capture\<close> (local save, source insert, telemetry, dispatch), the
    submission goroutine \<open>processSegment_submit\<close> (re-upload to the orchestrator's
    storage, \<open>SubmitSegment\<close>, the stop decision closing the input stream), and
    \<open>segment_run\<close>, which composes them with the fan-in relation of \<open>FanIn\<close> into the
    outcomes a segment can have. Lemmas: the failed local save, and when the stream
    is closed.
  \<^item> \<open>Session\<close>: a stream's segments over time: the capture path of each segment in
    capture order, interleaved with the goroutines of the segments already captured
    (submission, then the collection of \<open>FanIn\<close> on the task's own copy, whose
    appends are forwarded to the shared playlist and log), with a goroutine's panic
    ending the process. Lemmas: source renditions stay in capture order; the processing
    always completes when submissions return no more URLs than profiles (every
    interleaving is finite, and a maximal one exists by \<open>maximal_run_exists\<close> of
    \<open>Prelude\<close>); the final playlist is, as a multiset, the sources and each segment's
    sequential result; with the monitor disabled nothing is ever logged.
  \<^item> \<open>SessionOrder\<close>: two guarantees over every interleaving of a stream, each an
    invariant by rule induction over \<open>session_step\<close>. Per-segment order: every
    collecting goroutine's source rendition and its own inserted renditions (lines 79
    and 169) are a subsequence of the shared playlist (\<open>task_trace\<close>), and the
    events its capture path logged (\<open>capture_events\<close> of \<open>Segment\<close>, lines
    62--90) followed by those of its download goroutines are a subsequence of the shared
    telemetry log (\<open>task_log\<close>; both in \<open>traces_ok\<close>). Closing: the input
    stream is closed only if it was closed before or some \<open>SubmitSegment\<close> of the
    session failed with an error the classifier deems session-ending (lines 112--117).
  \<^item> This theory: the spec's section-8 single-failure scenario for a whole
    \<open>processSegment\<close>, across \<open>Segment\<close>, \<open>FanIn\<close> and \<open>FanInSlots\<close>.

  \<^bold>\<open>Bounds and fuel.\<close> No fuel is used. The fan-in relation is shown well-founded
  by the measure \<open>fanin_measure\<close>: the sum over goroutines of the number of atomic
  actions left (at most 8 each), plus one for the waiter. A stream's relation is
  well-founded by the lexicographic measures \<open>session_measures\<close>: segments not yet
  captured, goroutines not yet submitted, and the sum of the fan-in measures. Concrete
  interleavings for the witnesses are executable schedules (\<open>run_sched\<close>,
  \<open>run_session\<close>), proved sound for the relations. The completion results need no
  more result URLs than profiles; with more, \<open>sess.Profiles[i]\<close> panics (the model's
  \<open>panicked\<close> state), as \<open>FanInSlots\<close> shows.

  \<^bold>\<open>Not modelled, and why.\<close> Storage drivers, the discovery pool, the remote
  \<open>SubmitSegment\<close>, the playlist manager and Keccak are external: only their results
  enter the model, as function values. The \<open>Ticket\<close> type and the classifier are not in
  the sources and follow the spec. Logging through \<open>glog\<close> has no effect on state and
  is left out; telemetry is an event log. The join has no timeout in the source: every
  storage call is assumed to return. The loop that delivers a stream's segments to
  \<open>processSegment\<close> is outside the sources: \<open>Session\<close> takes the delivered segments
  as a list and does not stop delivering them on a close, which the spec (section 5)
  leaves to that loop; what the playlist manager does with inserts after the close is
  not in the sources either, and the model keeps them.
  The commented-out signature check of lines 186--189 is not code. Every line of the
  two implementation files outside the package and import declarations is mapped.

  \<^bold>\<open>Plan.\<close> A deadline on the fan-in join (spec section 9), once the code has
  one; the segment loop's stop on a close and the playlist manager's behaviour after
  it, once their code is in the sources.
\<close>

section \<open>Properties across components\<close>

text \<open>
  C3: the spec's section-8 fan-in scenario for a whole segment: when the orchestrator
  returns N renditions and exactly one download fails while the others are accepted,
  the segment leaves the playlist extended by its source entry and exactly N-1
  transcoded entries, and, with the monitor on, exactly one transcode-failure report is
  logged, in every interleaving of the download goroutines.
\<close>

theorem processSegment_single_failed_rendition:
  assumes run: "Segment.segment_run E cxn seg st (SegCollected urls) st'"
    and s: "sess cxn = Some s"
    and one: "FanIn.single_failure (segment_dl_ctx E (nonce cxn) s seg) urls k"
  shows "\<exists>new. bs_playlist st' = bs_playlist st @ source_entry E cxn seg @ new \<and>
           length new = length urls - 1 \<and>
           fail_reports (bs_events st') = fail_reports (bs_events st) + (if be_monitor E then 1 else 0)"
  using run
proof cases
  case (collected s' name seg1 st1 seg2 st2 f)
  note c = capture_cases [OF collected(2)] and u = submit_cases [OF collected(3)]
  have "s' = s" using c s by simp
  have sq: "SeqNo seg2 = SeqNo seg" "Duration seg2 = Duration seg" using c u by simp_all
  have p2: "bs_playlist st2 = bs_playlist st @ source_entry E cxn seg" using c u by simp
  have e2: "fail_reports (bs_events st2) = fail_reports (bs_events st)" using c u by simp
  have ctx: "segment_dl_ctx E (nonce cxn) s' seg2 = segment_dl_ctx E (nonce cxn) s seg"
    unfolding \<open>s' = s\<close> by (rule segment_dl_ctx_cong [OF sq])
  have mon: "dc_monitor (segment_dl_ctx E (nonce cxn) s seg) = be_monitor E"
    by (simp add: segment_dl_ctx_def)
  from fanin_single_failure [OF collected(4) [unfolded ctx] collected(5) one] obtain new where
    "fi_playlist f = bs_playlist st2 @ new" "length new = length urls - 1"
    "fail_reports (fi_events f) = fail_reports (bs_events st2) + (if be_monitor E then 1 else 0)"
    unfolding mon by blast
  with collected(1) p2 e2 show ?thesis by simp
qed

theorem processSegment_single_failed_rendition_witness:
  "\<exists>st'. Segment.segment_run (demo_env (Inr [''x1'', ''ok''])) (demo_cxn demo_os (Some demo_session))
      demo_seg demo_st (SegCollected [''x1'', ''ok'']) st' \<and>
    (\<exists>new. bs_playlist st' = source_entry (demo_env (Inr [''x1'', ''ok''])) (demo_cxn demo_os (Some demo_session)) demo_seg @ new \<and>
       length new = 1 \<and> fail_reports (bs_events st') = 1)"
proof -
  let ?E = "demo_env (Inr [''x1'', ''ok''])" and ?cxn = "demo_cxn demo_os (Some demo_session)"
  obtain r seg1 st1 where eq: "processSegment_capture ?E ?cxn demo_seg demo_st = (r, seg1, st1)"
    by (cases "processSegment_capture ?E ?cxn demo_seg demo_st") auto
  have r: "r = CaptureDispatched demo_session (seg_name ''source'' 3)"
    using eq by (auto simp: processSegment_capture_def insert_hls_def Let_def demo_defs
                      split: option.splits)
  have sub: "processSegment_submit ?E (nonce ?cxn) demo_session (seg_name ''source'' 3) seg1 st1 =
               (SubmitOK [''x1'', ''ok''], seg1, st1)"
    by (simp add: processSegment_submit_def submit_segment_def demo_session_def demo_env_def)
  have len: "length [''x1'', ''ok''] \<le> length (Profiles demo_session)"
    by (simp add: demo_session_def demo_ctx_def)
  from segment_collected_exists [OF eq [unfolded r] sub len] obtain st' where
    run: "Segment.segment_run ?E ?cxn demo_seg demo_st (SegCollected [''x1'', ''ok'']) st'" by blast
  have s: "sess ?cxn = Some demo_session" by (simp add: demo_cxn_def)
  have one: "FanIn.single_failure (segment_dl_ctx ?E (nonce ?cxn) demo_session demo_seg) [''x1'', ''ok''] 0"
    by (simp add: single_failure_def segment_dl_ctx_def dl_fetch_def dl_entry_def demo_defs
        less_Suc_eq)
  have mon: "be_monitor ?E" by (simp add: demo_env_def)
  from processSegment_single_failed_rendition [OF run s one] obtain new where
    n: "bs_playlist st' = bs_playlist demo_st @ source_entry ?E ?cxn demo_seg @ new"
      "length new = length [''x1'', ''ok''] - 1"
      "fail_reports (bs_events st') = fail_reports (bs_events demo_st) + (if be_monitor ?E then 1 else 0)"
    by blast
  have p: "bs_playlist st' = source_entry ?E ?cxn demo_seg @ new" using n(1) by (simp add: demo_st_def)
  have l: "length new = 1" using n(2) by simp
  have f: "fail_reports (bs_events st') = 1" using n(3) mon by (simp add: demo_st_def)
  show ?thesis using run p l f by blast
qed

end
